theory Spec2Isabelle
  imports Complex_Main "HOL-Library.Multiset" "HOL-Library.Char_ord" "HOL-Library.List_Lexorder"
begin

section \<open>Task partitioning\<close>

text \<open>
  Python's \<^verbatim>\<open>xs[start:end]\<close> for non-negative bounds, and the extended slice
  \<^verbatim>\<open>xs[r::w]\<close> (the elements at positions \<open>r\<close>, \<open>r + w\<close>, \<open>r + 2 w\<close>, ...).
\<close>

definition py_slice :: "'a list \<Rightarrow> nat \<Rightarrow> nat \<Rightarrow> 'a list" where
  "py_slice xs start end = drop start (take end xs)"

definition stride_indices :: "nat \<Rightarrow> nat \<Rightarrow> nat \<Rightarrow> nat list" where
  "stride_indices len r w = filter (\<lambda>k. r \<le> k \<and> (k - r) mod w = 0) [0..<len]"

definition py_stride :: "'a list \<Rightarrow> nat \<Rightarrow> nat \<Rightarrow> 'a list" where
  "py_stride xs r w = map (\<lambda>k. xs ! k) (stride_indices (length xs) r w)"

text \<open>
  \<^verbatim>\<open>diamond_blastp_mpi.py\<close>, step 5 of \<^verbatim>\<open>run_main_workflow_parallel_diamond\<close>:
  \<^verbatim>\<open>avg_d, rem_d = divmod(N_diamond, SIZE)\<close>, the per-rank counts, the displacements and the
  slices handed to \<^verbatim>\<open>COMM.scatter\<close>. \<open>SIZE\<close> is the size of the MPI communicator.
\<close>

definition counts_d :: "nat \<Rightarrow> nat \<Rightarrow> nat list" where
  "counts_d N SIZE =
     (let avg_d = N div SIZE; rem_d = N mod SIZE
      in map (\<lambda>i. if i < rem_d then avg_d + 1 else avg_d) [0..<SIZE])"

definition displs_d :: "nat \<Rightarrow> nat \<Rightarrow> nat list" where
  "displs_d N SIZE = map (\<lambda>i. sum_list (take i (counts_d N SIZE))) [0..<SIZE]"

definition task_slices_d :: "'a list \<Rightarrow> nat \<Rightarrow> 'a list list" where
  "task_slices_d all_diamond_tasks SIZE =
     (let N_diamond = length all_diamond_tasks
      in map (\<lambda>i. let start = displs_d N_diamond SIZE ! i;
                        end = displs_d N_diamond SIZE ! i + counts_d N_diamond SIZE ! i
                    in py_slice all_diamond_tasks start end)
             [0..<SIZE])"

text \<open>
  \<^verbatim>\<open>AllvsAllMPIsimilaritySearch.py\<close>: \<^verbatim>\<open>make_batches\<close> and the round-robin assignment
  \<^verbatim>\<open>row_batches[rank::size]\<close>. The batch size is a command-line integer:
  \<^verbatim>\<open>range(0, n, 0)\<close> raises, and a negative step gives the empty range.
\<close>

datatype py_error = ValueError

definition range_step :: "nat \<Rightarrow> nat \<Rightarrow> nat list" where
  "range_step n step = map (\<lambda>q. q * step) [0..<(n + step - 1) div step]"

definition make_batches :: "nat \<Rightarrow> int \<Rightarrow> py_error + (nat \<times> nat) list" where
  "make_batches n batch_size =
     (if batch_size = 0 then Inl ValueError
      else if batch_size < 0 then Inr []
      else Inr (map (\<lambda>i. (i, min (i + nat batch_size) n)) (range_step n (nat batch_size))))"

definition my_row_batches :: "'a list \<Rightarrow> nat \<Rightarrow> nat \<Rightarrow> 'a list" where
  "my_row_batches row_batches rank nranks = py_stride row_batches rank nranks"

section \<open>All-vs-all similarity matrix\<close>

text \<open>
  \<^verbatim>\<open>AllvsAllMPIsimilaritySearch.py\<close>. A matrix cell is a float or NaN; NaN is \<open>None\<close>
  and a number is \<open>Some x\<close> with \<open>x\<close> a real (the rounding of \<^verbatim>\<open>float32\<close> is not
  modelled). A fingerprint is \<open>Some fp\<close>, and \<open>None\<close> where \<^verbatim>\<open>smiles_to_fp\<close> returned
  \<^verbatim>\<open>None\<close>. The scorer \<^verbatim>\<open>DataStructs.BulkTanimotoSimilarity(qfp, tfps_valid)\<close> is external:
  it is the parameter \<open>sim\<close>, applied to the query and each target in turn.
\<close>

type_synonym matrix = "real option list list"

definition enumerate0 :: "'a list \<Rightarrow> (nat \<times> 'a) list" where
  "enumerate0 xs = zip [0..<length xs] xs"

definition compute_row ::
  "('o \<Rightarrow> 'o \<Rightarrow> real) \<Rightarrow> 'o \<Rightarrow> 'o list \<Rightarrow> bool list \<Rightarrow> real option list" where
  "compute_row sim qfp tfps tvalid =
     (let t_idx_valid = map fst (filter (\<lambda>(j, ok). ok) (enumerate0 tvalid));
          tfps_valid = map (\<lambda>j. tfps ! j) t_idx_valid;
          sims_valid = (if tfps_valid \<noteq> [] then map (sim qfp) tfps_valid else [])
      in fold (\<lambda>(k, j) row. row[j := Some (sims_valid ! k)]) (enumerate0 t_idx_valid)
              (replicate (length tfps) None))"

definition compute_block ::
  "('o \<Rightarrow> 'o \<Rightarrow> real) \<Rightarrow> 'o list \<Rightarrow> bool list \<Rightarrow> 'o list \<Rightarrow> bool list \<Rightarrow> matrix" where
  "compute_block sim qfps qvalid tfps tvalid =
     map (\<lambda>(qfp, ok_q). if \<not> ok_q then replicate (length tfps) None
                          else compute_row sim qfp tfps tvalid)
         (zip qfps qvalid)"

text \<open>
  \<^verbatim>\<open>np.hstack\<close> of blocks with the same number of rows; on the empty list it raises
  \<^verbatim>\<open>ValueError\<close>.
\<close>

definition hstack :: "matrix list \<Rightarrow> py_error + matrix" where
  "hstack parts =
     (case parts of [] \<Rightarrow> Inl ValueError
      | p # _ \<Rightarrow> Inr (map (\<lambda>i. concat (map (\<lambda>q. q ! i) parts)) [0..<length p]))"

fun sequence_sum :: "('e + 'a) list \<Rightarrow> 'e + 'a list" where
  "sequence_sum [] = Inr []"
| "sequence_sum (x # xs) =
     (case x of Inl e \<Rightarrow> Inl e
      | Inr v \<Rightarrow> (case sequence_sum xs of Inl e \<Rightarrow> Inl e | Inr vs \<Rightarrow> Inr (v # vs)))"

text \<open>
  The loop of one rank over its row batches: for each \<^verbatim>\<open>(rs, re)\<close> the blocks against all
  column batches, stacked to a full-width row block, kept with its row offset.
\<close>

definition full_row_block ::
  "('o \<Rightarrow> 'o \<Rightarrow> real) \<Rightarrow> 'o list \<Rightarrow> bool list \<Rightarrow> (nat \<times> nat) list \<Rightarrow> nat \<times> nat
     \<Rightarrow> py_error + (nat \<times> matrix)" where
  "full_row_block sim fps valid col_batches b =
     (case b of (rs, re) \<Rightarrow>
        (let qfps = py_slice fps rs re; qvalid = py_slice valid rs re;
             row_block_parts =
               map (\<lambda>(cs, ce). compute_block sim qfps qvalid (py_slice fps cs ce) (py_slice valid cs ce))
                   col_batches
         in case hstack row_block_parts of Inl e \<Rightarrow> Inl e | Inr blk \<Rightarrow> Inr (rs, blk)))"

definition my_blocks ::
  "('o \<Rightarrow> 'o \<Rightarrow> real) \<Rightarrow> 'o list \<Rightarrow> bool list \<Rightarrow> (nat \<times> nat) list \<Rightarrow> (nat \<times> nat) list
     \<Rightarrow> nat \<Rightarrow> nat \<Rightarrow> py_error + (nat \<times> matrix) list" where
  "my_blocks sim fps valid row_batches col_batches rank nranks =
     sequence_sum (map (full_row_block sim fps valid col_batches)
                       (my_row_batches row_batches rank nranks))"

text \<open>
  Rank 0 after \<^verbatim>\<open>comm.gather\<close>: \<^verbatim>\<open>M[rs:re, :] = block\<close> with \<^verbatim>\<open>re = rs + block.shape[0]\<close>,
  for every block of every rank, in rank order, on a matrix of NaN.
\<close>

definition place :: "nat \<times> matrix \<Rightarrow> matrix \<Rightarrow> matrix" where
  "place b M = (case b of (rs, block) \<Rightarrow> take rs M @ block @ drop (rs + length block) M)"

definition assemble :: "nat \<Rightarrow> (nat \<times> matrix) list list \<Rightarrow> matrix" where
  "assemble n gathered =
     fold (\<lambda>rank_blocks M. fold place rank_blocks M) gathered (replicate n (replicate n None))"

definition global_matrix ::
  "('fp option \<Rightarrow> 'fp option \<Rightarrow> real) \<Rightarrow> 'fp option list \<Rightarrow> int \<Rightarrow> int \<Rightarrow> nat
     \<Rightarrow> py_error + matrix" where
  "global_matrix sim fps row_batch col_batch nranks =
     (let n = length fps; valid = map (\<lambda>fp. fp \<noteq> None) fps
      in case make_batches n row_batch of Inl e \<Rightarrow> Inl e
         | Inr row_batches \<Rightarrow>
            (case make_batches n col_batch of Inl e \<Rightarrow> Inl e
             | Inr col_batches \<Rightarrow>
                (case sequence_sum
                        (map (\<lambda>rank. my_blocks sim fps valid row_batches col_batches rank nranks)
                             [0..<nranks])
                 of Inl e \<Rightarrow> Inl e
                 | Inr gathered \<Rightarrow> Inr (assemble n gathered))))"

text \<open>
  The symmetrisation on rank 0: the strict upper triangle and its mirror are read first,
  then both are written (mean where both are numbers, the defined one where one is NaN),
  and the diagonal is set to 1.0 for a valid entity and to NaN for an invalid one.
\<close>

definition sym_u :: "real option \<Rightarrow> real option \<Rightarrow> real option" where
  "sym_u upper lower =
     (case (upper, lower) of
        (Some u, Some l) \<Rightarrow> Some ((u + l) / 2)
      | (None, Some l) \<Rightarrow> Some l
      | _ \<Rightarrow> upper)"

definition sym_l :: "real option \<Rightarrow> real option \<Rightarrow> real option" where
  "sym_l upper lower =
     (case (upper, lower) of
        (Some u, Some l) \<Rightarrow> sym_u upper lower
      | (Some u, None) \<Rightarrow> Some u
      | _ \<Rightarrow> lower)"

definition symmetrize :: "bool list \<Rightarrow> matrix \<Rightarrow> matrix" where
  "symmetrize valid M =
     (let n = length M
      in map (\<lambda>i. map (\<lambda>j. if i = j then (if valid ! i then Some 1 else None)
                             else if i < j then sym_u (M ! i ! j) (M ! j ! i)
                             else sym_l (M ! j ! i) (M ! i ! j))
                      [0..<n])
             [0..<n])"

text \<open>
  Auxiliary notions for the assembly: the rows a list of placed blocks covers, a block
  that holds the rows of a row function \<open>T\<close> at its offset, and the full row of entity
  \<open>k\<close> against all column batches.
\<close>

definition covers :: "(nat \<times> matrix) list \<Rightarrow> nat \<Rightarrow> bool" where
  "covers bs i = (\<exists>b\<in>set bs. fst b \<le> i \<and> i < fst b + length (snd b))"

definition rows_of :: "(nat \<Rightarrow> real option list) \<Rightarrow> nat \<Rightarrow> nat \<times> matrix \<Rightarrow> bool" where
  "rows_of T n b = (fst b + length (snd b) \<le> n \<and> (\<forall>i<length (snd b). snd b ! i = T (fst b + i)))"

definition full_row ::
  "('o \<Rightarrow> 'o \<Rightarrow> real) \<Rightarrow> 'o list \<Rightarrow> bool list \<Rightarrow> (nat \<times> nat) list \<Rightarrow> nat
     \<Rightarrow> real option list" where
  "full_row sim fps valid col_batches k =
     concat (map (\<lambda>(cs, ce). if \<not> valid ! k then replicate (length (py_slice fps cs ce)) None
                             else compute_row sim (fps ! k) (py_slice fps cs ce) (py_slice valid cs ce))
                 col_batches)"

section \<open>Merging directional hit tables\<close>

text \<open>
  \<^verbatim>\<open>hungarianalgorithmRun.py\<close>. A row of a hit table after \<^verbatim>\<open>read_outfmt6\<close>: the rows
  with NaN in \<^verbatim>\<open>length\<close>, \<^verbatim>\<open>evalue\<close> or \<^verbatim>\<open>bitscore\<close> have been dropped there, so these
  are numbers; \<^verbatim>\<open>pident\<close> may be NaN, which is \<open>None\<close>. Floats are reals (rounding is
  not modelled). The values of the dictionaries of \<^verbatim>\<open>to_dir_dict\<close> have the same six
  fields; a merged record adds four.
\<close>

record 'a hit =
  qseqid :: 'a
  sseqid :: 'a
  pident :: "real option"
  hit_length :: real
  evalue :: real
  bitscore :: real

record 'a merged_rec = "'a hit" +
  score :: real
  pident_a2b :: "real option"
  pident_b2a :: "real option"
  avg_pident :: "real option"

definition to_dir_step ::
  "bool \<Rightarrow> real option \<Rightarrow> int option \<Rightarrow> 'a hit \<Rightarrow> ('a \<times> 'a \<rightharpoonup> 'a hit) \<Rightarrow> ('a \<times> 'a \<rightharpoonup> 'a hit)" where
  "to_dir_step flip emax Lmin r D =
     (if (case Lmin of None \<Rightarrow> False | Some L \<Rightarrow> hit_length r < of_int L) then D
      else if (case emax of None \<Rightarrow> False | Some e \<Rightarrow> evalue r > e) then D
      else (let key = (if flip then (sseqid r, qseqid r) else (qseqid r, sseqid r))
            in if (case D key of None \<Rightarrow> True | Some prev \<Rightarrow> bitscore r > bitscore prev)
               then D(key \<mapsto> \<lparr>qseqid = fst key, sseqid = snd key, pident = pident r,
                                hit_length = hit_length r, evalue = evalue r, bitscore = bitscore r\<rparr>)
               else D))"

definition to_dir_dict ::
  "'a hit list \<Rightarrow> bool \<Rightarrow> real option \<Rightarrow> int option \<Rightarrow> ('a \<times> 'a \<rightharpoonup> 'a hit)" where
  "to_dir_dict df flip emax Lmin = fold (to_dir_step flip emax Lmin) df Map.empty"

definition avg_two :: "real option \<Rightarrow> real option \<Rightarrow> real option" where
  "avg_two a b =
     (case (a, b) of
        (Some x, Some y) \<Rightarrow> Some (0.5 * (x + y))
      | (Some x, None) \<Rightarrow> Some x
      | (None, Some y) \<Rightarrow> Some y
      | (None, None) \<Rightarrow> None)"

definition with_merge ::
  "'a hit \<Rightarrow> real \<Rightarrow> real option \<Rightarrow> real option \<Rightarrow> 'a merged_rec" where
  "with_merge chosen s pa pb =
     \<lparr>qseqid = qseqid chosen, sseqid = sseqid chosen, pident = pident chosen,
      hit_length = hit_length chosen, evalue = evalue chosen, bitscore = bitscore chosen,
      score = s, pident_a2b = pa, pident_b2a = pb, avg_pident = avg_two pa pb\<rparr>"

definition merge_symmetric ::
  "('a \<times> 'a \<rightharpoonup> 'a hit) \<Rightarrow> ('a \<times> 'a \<rightharpoonup> 'a hit) \<Rightarrow> string \<Rightarrow> ('a \<times> 'a \<rightharpoonup> 'a merged_rec)" where
  "merge_symmetric a2b b2a how k =
     (case (a2b k, b2a k) of
        (Some v1, Some v2) \<Rightarrow>
          (if how = ''max'' then
             Some (with_merge (if bitscore v1 \<ge> bitscore v2 then v1 else v2)
                              (max (bitscore v1) (bitscore v2)) (pident v1) (pident v2))
           else if how = ''min'' then
             Some (with_merge (if bitscore v1 \<le> bitscore v2 then v1 else v2)
                              (min (bitscore v1) (bitscore v2)) (pident v1) (pident v2))
           else
             Some (with_merge (if bitscore v1 \<ge> bitscore v2 then v1 else v2)
                              (0.5 * (bitscore v1 + bitscore v2)) (pident v1) (pident v2)))
      | (Some v1, None) \<Rightarrow> Some (with_merge v1 (bitscore v1) (pident v1) None)
      | (None, Some v2) \<Rightarrow> Some (with_merge v2 (bitscore v2) None (pident v2))
      | (None, None) \<Rightarrow> None)"

definition merge_tables ::
  "'a hit list \<Rightarrow> 'a hit list \<Rightarrow> string \<Rightarrow> real option \<Rightarrow> int option \<Rightarrow> ('a \<times> 'a \<rightharpoonup> 'a merged_rec)" where
  "merge_tables A B how emax Lmin =
     merge_symmetric (to_dir_dict A False emax Lmin) (to_dir_dict B True emax Lmin) how"

section \<open>Assignment\<close>

text \<open>
  \<^verbatim>\<open>build_cost_matrix\<close> iterates \<^verbatim>\<open>merged.items()\<close>: the dictionary is the list of its
  items in iteration order. \<open>index_of\<close> is the lookup in \<^verbatim>\<open>{q: i for i, q in enumerate(queries)}\<close>;
  every key looked up is in the list, since the lists are built from the same keys.
\<close>

fun index_of :: "'a list \<Rightarrow> 'a \<Rightarrow> nat" where
  "index_of [] a = 0"
| "index_of (x # xs) a = (if x = a then 0 else Suc (index_of xs a))"

definition cost_step ::
  "'a list \<Rightarrow> 'a list \<Rightarrow> ('a \<times> 'a) \<times> 'a merged_rec
     \<Rightarrow> real list list \<times> (nat \<times> nat \<rightharpoonup> 'a merged_rec) \<times> real
     \<Rightarrow> real list list \<times> (nat \<times> nat \<rightharpoonup> 'a merged_rec) \<times> real" where
  "cost_step queries targets item st =
     (case (item, st) of (((A, B), rec), (score_m, cell, max_score)) \<Rightarrow>
        (let i = index_of queries A; j = index_of targets B; s = score rec;
             (score_m', cell') =
               (if s > score_m ! i ! j
                then (score_m[i := (score_m ! i)[j := s]], cell((i, j) \<mapsto> rec))
                else (score_m, cell))
         in (score_m', cell', if s > max_score then s else max_score)))"

definition build_cost_matrix ::
  "(('a::linorder \<times> 'a) \<times> 'a merged_rec) list
     \<Rightarrow> 'a list \<times> 'a list \<times> real list list \<times> real list list \<times> (nat \<times> nat \<rightharpoonup> 'a merged_rec) \<times> real" where
  "build_cost_matrix merged =
     (let queries = sort (remdups (map (\<lambda>(k, rec). fst k) merged));
          targets = sort (remdups (map (\<lambda>(k, rec). snd k) merged));
          n = length queries; m = length targets;
          (score_m, cell, max_score) =
             fold (cost_step queries targets) merged (replicate n (replicate m 0), Map.empty, 0);
          cost = map (\<lambda>i. map (\<lambda>j. max_score - score_m ! i ! j) [0..<m]) [0..<n]
      in (queries, targets, score_m, cost, cell, max_score))"

text \<open>
  \<^verbatim>\<open>list(map(list, zip(*cost)))\<close>: as many rows as the shortest row of \<^verbatim>\<open>cost\<close> is long.
  SciPy's \<^verbatim>\<open>linear_sum_assignment\<close> is external: the parameter \<open>lsa\<close>, from a cost matrix to
  the arrays of row and column indices.
\<close>

definition zip_star :: "'b list list \<Rightarrow> 'b list list" where
  "zip_star xss =
     (case xss of [] \<Rightarrow> []
      | xs # rest \<Rightarrow> map (\<lambda>j. map (\<lambda>row. row ! j) xss)
                         [0..<fold (\<lambda>row k. min (length row) k) rest (length xs)])"

definition solve_hungarian ::
  "(real list list \<Rightarrow> nat list \<times> nat list) \<Rightarrow> real list list \<Rightarrow> bool \<Rightarrow> nat list \<times> nat list \<times> bool" where
  "solve_hungarian lsa cost transpose_if_needed =
     (let n = length cost; m = (if cost \<noteq> [] then length (cost ! 0) else 0)
      in if transpose_if_needed \<and> n > m then
           (let tcost = zip_star cost; (col_ind, row_ind) = lsa tcost
            in (row_ind, col_ind, True))
         else
           (let (row_ind, col_ind) = lsa cost
            in (row_ind, col_ind, False)))"

text \<open>
  The loop of \<^verbatim>\<open>main\<close> that collects the chosen pairs: each kept pair with the record of
  its cell. The written row is that record.
\<close>

definition chosen_cells ::
  "(real list list \<Rightarrow> nat list \<times> nat list) \<Rightarrow> (('a::linorder \<times> 'a) \<times> 'a merged_rec) list
     \<Rightarrow> ((nat \<times> nat) \<times> 'a merged_rec) list" where
  "chosen_cells lsa merged =
     (case build_cost_matrix merged of (queries, targets, score_m, cost, cell, max_score) \<Rightarrow>
        (case solve_hungarian lsa cost True of (r, c, transposed) \<Rightarrow>
           (let n = length queries; m = length targets
            in List.map_filter
                 (\<lambda>(i, j). let (ii, jj) = (if transposed then (j, i) else (i, j))
                           in if ii < n \<and> jj < m
                              then (case cell (ii, jj) of None \<Rightarrow> None
                                    | Some rec \<Rightarrow> Some ((ii, jj), rec))
                              else None)
                 (zip r c))))"

definition chosen :: 
  "(real list list \<Rightarrow> nat list \<times> nat list) \<Rightarrow> (('a::linorder \<times> 'a) \<times> 'a merged_rec) list
     \<Rightarrow> 'a merged_rec list" where
  "chosen lsa merged = map snd (chosen_cells lsa merged)"

text \<open>
  The cells the solver selected, as (query index, target index) pairs of the cost matrix:
  when the matrix was transposed for the solver, its row indices are target indices.
\<close>

definition lsa_input :: "real list list \<Rightarrow> real list list" where
  "lsa_input cost =
     (if length cost > (if cost \<noteq> [] then length (cost ! 0) else 0) then zip_star cost else cost)"

definition solver_selected ::
  "(real list list \<Rightarrow> nat list \<times> nat list) \<Rightarrow> real list list \<Rightarrow> (nat \<times> nat) list" where
  "solver_selected lsa cost =
     (let (rows, cols) = lsa (lsa_input cost)
      in if length cost > (if cost \<noteq> [] then length (cost ! 0) else 0)
         then zip cols rows else zip rows cols)"

text \<open>
  A reference solver for concrete runs, for matrices with no more rows than columns: of
  all assignments of the rows, in order, to distinct columns, the first of least total
  cost.
\<close>

fun assignments :: "nat \<Rightarrow> nat list \<Rightarrow> nat list list" where
  "assignments 0 cols = [[]]"
| "assignments (Suc k) cols =
     concat (map (\<lambda>c. map (\<lambda>rest. c # rest) (assignments k (removeAll c cols))) cols)"

definition total_cost :: "real list list \<Rightarrow> nat list \<Rightarrow> real" where
  "total_cost cost cs = sum_list (map (\<lambda>(i, j). cost ! i ! j) (zip [0..<length cs] cs))"

definition lsa_reference :: "real list list \<Rightarrow> nat list \<times> nat list" where
  "lsa_reference cost =
     (let n = length cost; m = (if cost \<noteq> [] then length (cost ! 0) else 0)
      in case assignments n [0..<m] of [] \<Rightarrow> ([], [])
         | cs # rest \<Rightarrow>
             ([0..<n], fold (\<lambda>c best. if total_cost cost c < total_cost cost best then c else best)
                            rest cs))"

section \<open>Group similarity\<close>

text \<open>
  \<^verbatim>\<open>processHungarianAlgoOutput.py\<close>. An input file is its name split at \<^verbatim>\<open>_vs_\<close> and the
  \<^verbatim>\<open>avg_pident\<close> column of its table: \<open>None\<close> when the table has no such column, and a
  NaN entry of the column is \<open>None\<close>. pandas' \<^verbatim>\<open>sum\<close> and \<^verbatim>\<open>min\<close> skip NaN; the minimum
  of no number is NaN. The counts are the integers of \<^verbatim>\<open>numberofseqs.txt\<close>, Python integers
  once they are in the dictionary \<^verbatim>\<open>seq_count\<close>. A result is a float: a number, an
  infinity or NaN.

  The division by \<^verbatim>\<open>min_matches\<close>: the sum of a column with at least one row is a NumPy
  number, and dividing it by a zero count gives an infinity or NaN. The sum of the column
  of a table with no row is the Python integer 0, and dividing it by a zero count raises
  \<^verbatim>\<open>ZeroDivisionError\<close>, which ends the script before anything is written.
\<close>

datatype npfloat = Fin real | PInf | NInf | NaN

datatype agg_error = ZeroDivisionError

record 'g hungarian_file =
  species_a :: 'g
  species_b :: 'g
  avg_pident_col :: "real option list option"

definition pd_values :: "real option list \<Rightarrow> real list" where
  "pd_values col = List.map_filter (\<lambda>v. v) col"

definition pd_sum :: "real option list \<Rightarrow> real" where
  "pd_sum col = sum_list (pd_values col)"

definition pd_min :: "real option list \<Rightarrow> real option" where
  "pd_min col = (case pd_values col of [] \<Rightarrow> None | v # vs \<Rightarrow> Some (fold min vs v))"

definition np_div :: "real option \<Rightarrow> int \<Rightarrow> npfloat" where
  "np_div x d =
     (case x of None \<Rightarrow> NaN
      | Some v \<Rightarrow> if d \<noteq> 0 then Fin (v / of_int d)
                  else if v > 0 then PInf else if v < 0 then NInf else NaN)"

definition speciesSimilarity :: "int \<Rightarrow> int \<Rightarrow> real option list \<Rightarrow> agg_error + npfloat" where
  "speciesSimilarity na nb col =
     (let min_matches = min na nb; observed = int (length col)
      in if observed < min_matches then
           (let missing = min_matches - observed
            in Inr (np_div (case pd_min col of None \<Rightarrow> None
                            | Some mn \<Rightarrow> Some (pd_sum col + of_int missing * mn)) min_matches))
         else if col = [] \<and> min_matches = 0 then Inl ZeroDivisionError
         else Inr (np_div (Some (pd_sum col)) min_matches))"

text \<open>
  The body of the loop over the files: \<open>Inr None\<close> where the file is skipped, \<open>Inl\<close> where
  the script ends with an error.
\<close>

definition file_result :: "('g \<rightharpoonup> int) \<Rightarrow> 'g hungarian_file \<Rightarrow> agg_error + npfloat option" where
  "file_result seq_count f =
     (let a = species_a f; b = species_b f
      in if a = b then Inr (Some (Fin 100))
         else (case (seq_count a, seq_count b) of
                 (Some na, Some nb) \<Rightarrow>
                   (case avg_pident_col f of None \<Rightarrow> Inr None
                    | Some col \<Rightarrow>
                        (case speciesSimilarity na nb col of Inl e \<Rightarrow> Inl e
                         | Inr v \<Rightarrow> Inr (Some v)))
               | _ \<Rightarrow> Inr None))"

definition results_step ::
  "('g \<rightharpoonup> int) \<Rightarrow> 'g hungarian_file \<Rightarrow> agg_error + ('g \<times> 'g \<rightharpoonup> npfloat)
     \<Rightarrow> agg_error + ('g \<times> 'g \<rightharpoonup> npfloat)" where
  "results_step seq_count f st =
     (case st of Inl e \<Rightarrow> Inl e
      | Inr results \<Rightarrow>
          (case file_result seq_count f of Inl e \<Rightarrow> Inl e
           | Inr None \<Rightarrow> Inr results
           | Inr (Some v) \<Rightarrow> Inr (results((species_a f, species_b f) \<mapsto> v))))"

definition results_of ::
  "('g \<rightharpoonup> int) \<Rightarrow> 'g hungarian_file list \<Rightarrow> agg_error + ('g \<times> 'g \<rightharpoonup> npfloat)" where
  "results_of seq_count files = fold (results_step seq_count) files (Inr Map.empty)"

text \<open>
  \<^verbatim>\<open>DataFrame.from_dict(results, orient="index")\<close> has the first species of the stored
  pairs as rows and the second as columns, NaN where no result is stored.
  \<^verbatim>\<open>combine_first\<close> with the transpose gives the union of both as rows and as columns and
  fills the NaN cells from the mirrored cell; then the diagonal is set to 100.
\<close>

definition labels :: "('g \<times> 'g \<rightharpoonup> npfloat) \<Rightarrow> 'g set" where
  "labels results = fst ` dom results \<union> snd ` dom results"

definition frame_cell :: "('g \<times> 'g \<rightharpoonup> npfloat) \<Rightarrow> 'g \<Rightarrow> 'g \<Rightarrow> npfloat" where
  "frame_cell results a b = (case results (a, b) of None \<Rightarrow> NaN | Some v \<Rightarrow> v)"

definition combine_first_T :: "('g \<times> 'g \<rightharpoonup> npfloat) \<Rightarrow> 'g \<Rightarrow> 'g \<Rightarrow> npfloat" where
  "combine_first_T results a b =
     (if frame_cell results a b \<noteq> NaN then frame_cell results a b else frame_cell results b a)"

definition similarity_matrix :: "('g \<times> 'g \<rightharpoonup> npfloat) \<Rightarrow> 'g \<Rightarrow> 'g \<Rightarrow> npfloat" where
  "similarity_matrix results a b = (if a = b then Fin 100 else combine_first_T results a b)"

text \<open>The components of the result of \<^verbatim>\<open>build_cost_matrix\<close>.\<close>

definition queries_of :: "(('a::linorder \<times> 'a) \<times> 'a merged_rec) list \<Rightarrow> 'a list" where
  "queries_of merged = (case build_cost_matrix merged of (queries, targets, score_m, cost, cell, max_score) \<Rightarrow> queries)"

definition targets_of :: "(('a::linorder \<times> 'a) \<times> 'a merged_rec) list \<Rightarrow> 'a list" where
  "targets_of merged = (case build_cost_matrix merged of (queries, targets, score_m, cost, cell, max_score) \<Rightarrow> targets)"

definition cost_of :: "(('a::linorder \<times> 'a) \<times> 'a merged_rec) list \<Rightarrow> real list list" where
  "cost_of merged = (case build_cost_matrix merged of (queries, targets, score_m, cost, cell, max_score) \<Rightarrow> cost)"

definition cell_of :: "(('a::linorder \<times> 'a) \<times> 'a merged_rec) list \<Rightarrow> (nat \<times> nat \<rightharpoonup> 'a merged_rec)" where
  "cell_of merged = (case build_cost_matrix merged of (queries, targets, score_m, cost, cell, max_score) \<Rightarrow> cell)"

text \<open>
  Example data: the merged record of a pair seen in the first direction only, with the
  given bit score, under its key.
\<close>

definition example_rec :: "string \<Rightarrow> string \<Rightarrow> real \<Rightarrow> (string \<times> string) \<times> string merged_rec" where
  "example_rec q t s =
     ((q, t), with_merge \<lparr>qseqid = q, sseqid = t, pident = Some 90, hit_length = 100,
                           evalue = 0, bitscore = s\<rparr> s (Some 90) None)"

text \<open>
  Two directional dictionaries are mirrored when each holds, under the swapped key, a
  record of the bit score the other holds.
\<close>

definition mirrored :: "('a \<times> 'a \<rightharpoonup> 'a hit) \<Rightarrow> ('a \<times> 'a \<rightharpoonup> 'a hit) \<Rightarrow> bool" where
  "mirrored D D' = (\<forall>x y. map_option bitscore (D (x, y)) = map_option bitscore (D' (y, x)))"

section \<open>Properties of the task partitioner\<close>

subsection \<open>Contiguous slices\<close>

lemma length_counts_d: "length (counts_d N W) = W"
  by (simp add: counts_d_def Let_def)

lemma counts_d_nth:
  "i < W \<Longrightarrow> counts_d N W ! i = (if i < N mod W then N div W + 1 else N div W)"
  by (simp add: counts_d_def Let_def)

lemma sum_list_counts_d:
  assumes "1 \<le> W"
  shows "sum_list (counts_d N W) = N"
proof -
  have r: "N mod W < W" using assms by simp
  have "sum_list (counts_d N W)
          = (\<Sum>i = 0..<W. N div W + (if i < N mod W then 1 else 0))"
    unfolding counts_d_def Let_def interv_sum_list_conv_sum_set_nat
    by (rule sum.cong) auto
  also have "\<dots> = W * (N div W) + (\<Sum>i = 0..<W. if i < N mod W then 1 else 0)"
    by (simp add: sum.distrib)
  also have "(\<Sum>i = 0..<W. if i < N mod W then 1 else (0::nat)) = card {i \<in> {0..<W}. i < N mod W}"
    by (simp add: sum.If_cases Int_def)
  also have "{i \<in> {0..<W}. i < N mod W} = {0..<N mod W}"
    using r by auto
  finally show ?thesis by simp
qed

lemma chunks_concat:
  "concat (map (\<lambda>i. py_slice xs (sum_list (take i cs)) (sum_list (take i cs) + cs ! i))
               [0..<length cs])
     = take (sum_list cs) xs"
proof (induction cs rule: rev_induct)
  case Nil
  then show ?case by simp
next
  case (snoc c cs)
  define F where "F = (\<lambda>i. py_slice xs (sum_list (take i (cs @ [c])))
                         (sum_list (take i (cs @ [c])) + (cs @ [c]) ! i))"
  have same: "map F [0..<length cs]
            = map (\<lambda>i. py_slice xs (sum_list (take i cs)) (sum_list (take i cs) + cs ! i))
                  [0..<length cs]"
    by (rule map_cong) (auto simp: F_def nth_append)
  have Flast: "F (length cs) = py_slice xs (sum_list cs) (sum_list cs + c)"
    by (simp add: F_def)
  have last: "take (sum_list cs) xs @ py_slice xs (sum_list cs) (sum_list cs + c)
                = take (sum_list cs + c) xs"
  proof -
    have "take (sum_list cs) xs = take (sum_list cs) (take (sum_list cs + c) xs)"
      by (simp add: min_def)
    then show ?thesis
      unfolding py_slice_def by (metis append_take_drop_id)
  qed
  have "concat (map F [0..<length (cs @ [c])]) = concat (map F [0..<length cs]) @ F (length cs)"
    by simp
  also have "\<dots> = take (sum_list cs + c) xs"
    by (simp only: same snoc.IH Flast last)
  finally have "concat (map F [0..<length (cs @ [c])]) = take (sum_list (cs @ [c])) xs"
    by simp
  then show ?case
    by (simp only: F_def)
qed

lemma task_slices_d_alt:
  "task_slices_d xs W =
     map (\<lambda>i. py_slice xs (sum_list (take i (counts_d (length xs) W)))
                        (sum_list (take i (counts_d (length xs) W)) + counts_d (length xs) W ! i))
         [0..<length (counts_d (length xs) W)]"
  unfolding task_slices_d_def Let_def displs_d_def length_counts_d
  by (rule map_cong) auto

lemma concat_task_slices_d:
  assumes "1 \<le> W"
  shows "concat (task_slices_d xs W) = xs"
  unfolding task_slices_d_alt chunks_concat
  by (simp add: sum_list_counts_d [OF assms])

lemma length_py_slice_prefix:
  "a + c \<le> length xs \<Longrightarrow> length (py_slice xs a (a + c)) = c"
  by (simp add: py_slice_def)

lemma take_counts_le:
  assumes "1 \<le> W" "i < W"
  shows "sum_list (take i (counts_d N W)) + counts_d N W ! i \<le> N"
proof -
  have "take (Suc i) (counts_d N W) = take i (counts_d N W) @ [counts_d N W ! i]"
    using assms by (simp add: take_Suc_conv_app_nth length_counts_d)
  then have "sum_list (take i (counts_d N W)) + counts_d N W ! i
               = sum_list (take (Suc i) (counts_d N W))"
    by simp
  also have "\<dots> \<le> sum_list (take (Suc i) (counts_d N W)) + sum_list (drop (Suc i) (counts_d N W))"
    by simp
  also have "\<dots> = sum_list (counts_d N W)"
    by (metis append_take_drop_id sum_list_append)
  finally show ?thesis
    by (simp add: sum_list_counts_d [OF assms(1)])
qed

lemma length_task_slice:
  assumes "1 \<le> W" "i < W"
  shows "length (task_slices_d xs W ! i) = counts_d (length xs) W ! i"
  using assms take_counts_le [OF assms, of "length xs"]
  by (simp add: task_slices_d_alt length_counts_d length_py_slice_prefix)

subsection \<open>Round-robin slices\<close>

lemma stride_cond: "r < (W::nat) \<Longrightarrow> (r \<le> k \<and> (k - r) mod W = 0) \<longleftrightarrow> k mod W = r"
proof
  assume r: "r < W" and h: "r \<le> k \<and> (k - r) mod W = 0"
  then have "W dvd (k - r)" by (auto simp: dvd_eq_mod_eq_0)
  then obtain q where "k - r = W * q" by (auto simp: dvd_def)
  with h have "k = r + W * q" by linarith
  with r show "k mod W = r" by simp
next
  assume r: "r < W" and h: "k mod W = r"
  have k: "k = W * (k div W) + k mod W" by simp
  then have "r \<le> k" using h by linarith
  moreover have "k - r = W * (k div W)" using k h by linarith
  ultimately show "r \<le> k \<and> (k - r) mod W = 0" by simp
qed

lemma stride_indices_mod:
  "r < W \<Longrightarrow> stride_indices len r W = filter (\<lambda>k. k mod W = r) [0..<len]"
  unfolding stride_indices_def by (rule filter_cong) (auto simp: stride_cond)

lemma sum_filter_classes:
  "(\<Sum>r\<leftarrow>[0..<M]. filter_mset (\<lambda>k. f k = r) A) = filter_mset (\<lambda>k. f k < M) A"
proof (induction M)
  case 0
  then show ?case by simp
next
  case (Suc M)
  have "filter_mset (\<lambda>k. f k < M) A + filter_mset (\<lambda>k. f k = M) A
          = filter_mset (\<lambda>k. f k < Suc M) A"
    by (rule multiset_eqI) auto
  with Suc show ?case by simp
qed

lemma image_mset_sum_list:
  "(\<Sum>r\<leftarrow>rs. image_mset g (F r)) = image_mset g (\<Sum>r\<leftarrow>rs. F r)"
  by (induction rs) auto

lemma mset_round_robin:
  assumes "1 \<le> W"
  shows "mset (concat (map (\<lambda>r. py_stride xs r W) [0..<W])) = mset xs"
proof -
  have "mset (concat (map (\<lambda>r. py_stride xs r W) [0..<W]))
          = (\<Sum>r\<leftarrow>[0..<W]. mset (py_stride xs r W))"
    by (simp add: mset_concat comp_def)
  also have "\<dots> = (\<Sum>r\<leftarrow>[0..<W]. image_mset (\<lambda>k. xs ! k)
                        (filter_mset (\<lambda>k. k mod W = r) (mset [0..<length xs])))"
    by (rule arg_cong [where f = sum_list], rule map_cong)
       (auto simp: py_stride_def stride_indices_mod)
  also have "\<dots> = image_mset (\<lambda>k. xs ! k)
                     (\<Sum>r\<leftarrow>[0..<W]. filter_mset (\<lambda>k. k mod W = r) (mset [0..<length xs]))"
    by (rule image_mset_sum_list)
  also have "\<dots> = image_mset (\<lambda>k. xs ! k) (mset [0..<length xs])"
  proof -
    have "filter_mset (\<lambda>k. k mod W < W) A = A" for A :: "nat multiset"
      using assms by simp
    then show ?thesis
      by (simp only: sum_filter_classes)
  qed
  also have "\<dots> = mset xs"
    by (metis map_nth mset_map)
  finally show ?thesis .
qed

lemma round_robin_unique:
  assumes "1 \<le> W" "k < len"
  shows "\<exists>!r. r < W \<and> k \<in> set (stride_indices len r W)"
proof
  show "k mod W < W \<and> k \<in> set (stride_indices len (k mod W) W)"
    using assms by (simp add: stride_indices_mod)
next
  fix r assume "r < W \<and> k \<in> set (stride_indices len r W)"
  then show "r = k mod W" by (auto simp: stride_indices_mod)
qed


lemma length_filter_mod:
  assumes "r < (W::nat)"
  shows "length (filter (\<lambda>k. k mod W = r) [0..<N])
           = (if r < N mod W then N div W + 1 else N div W)"
proof (induction N)
  case 0
  then show ?case by simp
next
  case (Suc N)
  have m: "N mod W < W" using assms by simp
  show ?case
  proof (cases "Suc (N mod W) = W")
    case True
    then have "Suc N mod W = 0" "Suc N div W = Suc (N div W)"
      by (simp_all add: mod_Suc div_Suc)
    with Suc True assms show ?thesis by auto
  next
    case False
    then have "Suc N mod W = Suc (N mod W)" "Suc N div W = N div W"
      by (simp_all add: mod_Suc div_Suc)
    with Suc assms show ?thesis by auto
  qed
qed

lemma length_my_row_batches:
  "r < W \<Longrightarrow> length (my_row_batches xs r W)
      = (if r < length xs mod W then length xs div W + 1 else length xs div W)"
  by (simp add: my_row_batches_def py_stride_def stride_indices_mod length_filter_mod)

text \<open>
  Claim C8. For a task list of \<open>N\<close> units and \<open>W \<ge> 1\<close> workers the contiguous partitioner
  returns \<open>W\<close> slices whose sizes sum to \<open>N\<close> and differ by at most one, the first
  \<open>N mod W\<close> of size \<open>N div W + 1\<close> and the others of size \<open>N div W\<close>, and whose concatenation
  in rank order is the task list. Under the round-robin policy the slices of all ranks hold
  every batch exactly as often as the batch list does, every batch position belongs to
  exactly one rank, and the slice sizes follow the same rule.
\<close>

theorem task_partitioner_exact:
  assumes "1 \<le> W"
  shows "length (task_slices_d tasks W) = W
       \<and> sum_list (map length (task_slices_d tasks W)) = length tasks
       \<and> (\<forall>i<W. length (task_slices_d tasks W ! i)
                     = (if i < length tasks mod W then length tasks div W + 1
                        else length tasks div W))
       \<and> (\<forall>i<W. \<forall>j<W. length (task_slices_d tasks W ! i)
                           \<le> length (task_slices_d tasks W ! j) + 1)
       \<and> concat (task_slices_d tasks W) = tasks
       \<and> mset (concat (map (\<lambda>rank. my_row_batches batches rank W) [0..<W])) = mset batches
       \<and> (\<forall>k<length batches.
             \<exists>!rank. rank < W \<and> k \<in> set (stride_indices (length batches) rank W))
       \<and> (\<forall>rank<W. length (my_row_batches batches rank W)
                     = (if rank < length batches mod W then length batches div W + 1
                        else length batches div W))"
proof -
  have rsz: "\<forall>rank<W. length (my_row_batches batches rank W)
                     = (if rank < length batches mod W then length batches div W + 1
                        else length batches div W)"
    by (simp add: length_my_row_batches)
  have len: "length (task_slices_d tasks W) = W"
    by (simp add: task_slices_d_alt length_counts_d)
  have cc: "concat (task_slices_d tasks W) = tasks"
    by (rule concat_task_slices_d [OF assms])
  have "sum_list (map length (task_slices_d tasks W)) = length (concat (task_slices_d tasks W))"
    by (simp add: length_concat)
  then have total: "sum_list (map length (task_slices_d tasks W)) = length tasks"
    by (simp only: cc)
  have sz: "\<forall>i<W. length (task_slices_d tasks W ! i)
                     = (if i < length tasks mod W then length tasks div W + 1
                        else length tasks div W)"
    using assms by (simp add: length_task_slice counts_d_nth)
  have near: "\<forall>i<W. \<forall>j<W. length (task_slices_d tasks W ! i)
                           \<le> length (task_slices_d tasks W ! j) + 1"
    using sz by auto
  have rr: "mset (concat (map (\<lambda>rank. my_row_batches batches rank W) [0..<W])) = mset batches"
    unfolding my_row_batches_def by (rule mset_round_robin [OF assms])
  have uniq: "\<forall>k<length batches.
             \<exists>!rank. rank < W \<and> k \<in> set (stride_indices (length batches) rank W)"
    using round_robin_unique [OF assms] by blast
  from len total sz near cc rr uniq rsz show ?thesis
    by blast
qed

theorem task_partitioner_exact_witness:
  "(1::nat) \<le> 2
   \<and> task_slices_d [10, 20, 30 :: nat] 2 = [[10, 20], [30]]
   \<and> concat (task_slices_d [10, 20, 30 :: nat] 2) = [10, 20, 30]
   \<and> make_batches 5 2 = Inr [(0, 2), (2, 4), (4, 5)]
   \<and> my_row_batches ([(0, 2), (2, 4), (4, 5)] :: (nat \<times> nat) list) 0 2 = [(0 :: nat, 2), (4, 5)]
   \<and> my_row_batches ([(0, 2), (2, 4), (4, 5)] :: (nat \<times> nat) list) 1 2 = [(2 :: nat, 4)]
   \<and> mset (concat (map (\<lambda>rank. my_row_batches ([(0, 2), (2, 4), (4, 5)] :: (nat \<times> nat) list) rank 2) [0..<2]))
       = mset [(0 :: nat, 2), (2, 4), (4, 5)]"
proof -
  have h: "(1::nat) \<le> 2" by simp
  have a: "task_slices_d [10, 20, 30 :: nat] 2 = [[10, 20], [30]]"
    by (simp add: task_slices_d_def displs_d_def counts_d_def py_slice_def Let_def upt_rec)
  have b: "make_batches 5 2 = Inr [(0, 2), (2, 4), (4, 5)]"
    by (simp add: make_batches_def range_step_def upt_rec)
  have c: "my_row_batches ([(0, 2), (2, 4), (4, 5)] :: (nat \<times> nat) list) 0 2 = [(0 :: nat, 2), (4, 5)]"
    by (simp add: my_row_batches_def py_stride_def stride_indices_def upt_rec)
  have d: "my_row_batches ([(0, 2), (2, 4), (4, 5)] :: (nat \<times> nat) list) 1 2 = [(2 :: nat, 4)]"
    by (simp add: my_row_batches_def py_stride_def stride_indices_def upt_rec)
  from task_partitioner_exact [OF h, of "[10, 20, 30 :: nat]" "[(0, 2), (2, 4), (4, 5)] :: (nat \<times> nat) list"]
    h a b c d
  show ?thesis by simp
qed

section \<open>Properties of the symmetrisation\<close>

lemma length_symmetrize: "length (symmetrize valid M) = length M"
  by (simp add: symmetrize_def Let_def)

lemma symmetrize_nth:
  "i < length M \<Longrightarrow> j < length M \<Longrightarrow>
   symmetrize valid M ! i ! j =
     (if i = j then (if valid ! i then Some 1 else None)
      else if i < j then sym_u (M ! i ! j) (M ! j ! i)
      else sym_l (M ! j ! i) (M ! i ! j))"
  by (simp add: symmetrize_def Let_def)

lemma sym_u_fix: "sym_u (sym_u u l) (sym_l u l) = sym_u u l"
  by (cases u; cases l) (simp_all add: sym_u_def sym_l_def)

lemma sym_l_fix: "sym_l (sym_u u l) (sym_l u l) = sym_l u l"
  by (cases u; cases l) (simp_all add: sym_u_def sym_l_def)

lemma symmetrize_twice:
  "symmetrize valid (symmetrize valid M) = symmetrize valid M"
proof -
  let ?S = "symmetrize valid M"
  have cell: "(if i = j then (if valid ! i then Some 1 else None)
               else if i < j then sym_u (?S ! i ! j) (?S ! j ! i)
               else sym_l (?S ! j ! i) (?S ! i ! j))
            = (if i = j then (if valid ! i then Some 1 else None)
               else if i < j then sym_u (M ! i ! j) (M ! j ! i)
               else sym_l (M ! j ! i) (M ! i ! j))"
    if "i < length M" "j < length M" for i j
    using that by (simp add: symmetrize_nth sym_u_fix sym_l_fix)
  show ?thesis
    unfolding symmetrize_def [of valid ?S] length_symmetrize Let_def
    unfolding symmetrize_def [of valid M] Let_def
    apply (rule map_cong [OF refl])
    apply (rule map_cong [OF refl])
    using cell [unfolded symmetrize_def Let_def] apply simp
    done
qed

lemma sym_u_cases:
  "sym_u a b = (case (a, b) of (Some x, Some y) \<Rightarrow> Some ((x + y) / 2)
                | (Some x, None) \<Rightarrow> Some x | (None, Some y) \<Rightarrow> Some y | (None, None) \<Rightarrow> None)"
  by (cases a; cases b) (simp_all add: sym_u_def)

lemma sym_l_cases:
  "sym_l b a = (case (a, b) of (Some x, Some y) \<Rightarrow> Some ((x + y) / 2)
                | (Some x, None) \<Rightarrow> Some x | (None, Some y) \<Rightarrow> Some y | (None, None) \<Rightarrow> None)"
  by (cases a; cases b) (simp_all add: sym_u_def sym_l_def add.commute)

text \<open>
  Claim C9. The symmetrisation of the entity matrix writes, off the diagonal, the mean
  where both mirrored cells are numbers, the defined value where exactly one is, and NaN
  where neither is; on the diagonal 1.0 (the maximum score) for a valid entity and NaN for
  an invalid one. Applying it twice gives the same matrix as applying it once.
\<close>

theorem symmetrize_idempotent:
  "symmetrize valid (symmetrize valid M) = symmetrize valid M
   \<and> (\<forall>i<length M. \<forall>j<length M.
         symmetrize valid M ! i ! j =
           (if i = j then (if valid ! i then Some 1 else None)
            else (case (M ! i ! j, M ! j ! i) of
                    (Some x, Some y) \<Rightarrow> Some ((x + y) / 2)
                  | (Some x, None) \<Rightarrow> Some x
                  | (None, Some y) \<Rightarrow> Some y
                  | (None, None) \<Rightarrow> None)))"
proof (intro conjI allI impI)
  show "symmetrize valid (symmetrize valid M) = symmetrize valid M"
    by (rule symmetrize_twice)
next
  fix i j assume ij: "i < length M" "j < length M"
  show "symmetrize valid M ! i ! j =
           (if i = j then (if valid ! i then Some 1 else None)
            else (case (M ! i ! j, M ! j ! i) of
                    (Some x, Some y) \<Rightarrow> Some ((x + y) / 2)
                  | (Some x, None) \<Rightarrow> Some x
                  | (None, Some y) \<Rightarrow> Some y
                  | (None, None) \<Rightarrow> None))"
    unfolding symmetrize_nth [OF ij]
    using sym_u_cases [of "M ! i ! j" "M ! j ! i"] sym_l_cases [of "M ! j ! i" "M ! i ! j"]
    by simp
qed

theorem symmetrize_idempotent_witness:
  "symmetrize [True, False, True] [[Some 1, Some 0.5, None], [Some 0.25, None, None], [Some 0.75, None, Some 1]]
     = [[Some 1, Some 0.375, Some 0.75], [Some 0.375, None, None], [Some 0.75, None, Some 1]]
   \<and> symmetrize [True, False, True]
         [[Some 1, Some 0.375, Some 0.75], [Some 0.375, None, None], [Some 0.75, None, Some 1]]
     = [[Some 1, Some 0.375, Some 0.75], [Some 0.375, None, None], [Some 0.75, None, Some 1]]"
proof -
  have a: "symmetrize [True, False, True]
             [[Some 1, Some 0.5, None], [Some 0.25, None, None], [Some 0.75, None, Some 1]]
           = [[Some 1, Some 0.375, Some 0.75], [Some 0.375, None, None], [Some 0.75, None, Some 1]]"
    by (simp add: symmetrize_def sym_u_def sym_l_def Let_def upt_rec)
  from symmetrize_idempotent [of "[True, False, True]"
         "[[Some 1, Some 0.5, None], [Some 0.25, None, None], [Some 0.75, None, Some 1]]"] a
  show ?thesis by simp
qed

section \<open>Properties of the block assembly\<close>

lemma place_length:
  "rs + length block \<le> length M \<Longrightarrow> length (place (rs, block) M) = length M"
  by (simp add: place_def)

lemma place_nth:
  assumes "rs + length block \<le> length M" "i < length M"
  shows "place (rs, block) M ! i
           = (if rs \<le> i \<and> i < rs + length block then block ! (i - rs) else M ! i)"
  using assms by (auto simp: place_def nth_append min_def)

lemma fold_place:
  assumes "\<forall>b\<in>set bs. rows_of T n b" "length M = n"
  shows "length (fold place bs M) = n
       \<and> (\<forall>i<n. fold place bs M ! i = (if covers bs i then T i else M ! i))"
  using assms
proof (induction bs arbitrary: M)
  case Nil
  then show ?case by (simp add: covers_def)
next
  case (Cons b bs)
  obtain rs block where b: "b = (rs, block)" by (cases b)
  from Cons.prems b have rb: "rs + length block \<le> n" "\<forall>i<length block. block ! i = T (rs + i)"
    by (auto simp: rows_of_def)
  have len: "length (place b M) = n"
    using rb Cons.prems(2) by (simp add: b place_length)
  from Cons.IH [OF _ len] Cons.prems(1)
  have IH: "length (fold place bs (place b M)) = n"
       "\<forall>i<n. fold place bs (place b M) ! i = (if covers bs i then T i else place b M ! i)"
    by auto
  show ?case
  proof (intro conjI allI impI)
    show "length (fold place (b # bs) M) = n" using IH(1) by simp
  next
    fix i assume i: "i < n"
    have p: "place b M ! i = (if rs \<le> i \<and> i < rs + length block then T i else M ! i)"
      using place_nth [of rs block M i] rb i Cons.prems(2) by (auto simp: b)
    have c: "covers (b # bs) i \<longleftrightarrow> (rs \<le> i \<and> i < rs + length block) \<or> covers bs i"
      by (auto simp: covers_def b)
    show "fold place (b # bs) M ! i = (if covers (b # bs) i then T i else M ! i)"
      using IH(2) i p c by simp
  qed
qed

lemma assemble_concat: "assemble n gathered = fold place (concat gathered) (replicate n (replicate n None))"
proof -
  have "fold (\<lambda>rank_blocks M. fold place rank_blocks M) g M = fold place (concat g) M" for g M
    by (induction g arbitrary: M) auto
  then show ?thesis by (simp add: assemble_def)
qed

lemma assemble_set_eq:
  assumes "\<forall>b\<in>set (concat g1). rows_of T n b"
    and "set (concat g1) = set (concat g2)"
  shows "assemble n g1 = assemble n g2"
proof (rule nth_equalityI)
  let ?M0 = "replicate n (replicate n (None :: real option))"
  have g2: "\<forall>b\<in>set (concat g2). rows_of T n b"
    using assms(1) unfolding assms(2) .
  note f1 = fold_place [OF assms(1), of ?M0, simplified]
  note f2 = fold_place [OF g2, of ?M0, simplified]
  show "length (assemble n g1) = length (assemble n g2)"
    using f1 f2 by (simp add: assemble_concat)
  fix i assume "i < length (assemble n g1)"
  then have i: "i < n" using f1 by (simp add: assemble_concat)
  have "covers (concat g1) i = covers (concat g2) i"
    unfolding covers_def assms(2) ..
  then show "assemble n g1 ! i = assemble n g2 ! i"
    using f1 f2 i unfolding assemble_concat by simp
qed


lemma py_slice_length: "re \<le> length xs \<Longrightarrow> length (py_slice xs rs re) = re - rs"
  by (simp add: py_slice_def)

lemma py_slice_nth: "re \<le> length xs \<Longrightarrow> i < re - rs \<Longrightarrow> py_slice xs rs re ! i = xs ! (rs + i)"
  by (simp add: py_slice_def)

lemma compute_block_length:
  "length (compute_block sim qfps qvalid tfps tvalid) = min (length qfps) (length qvalid)"
  by (simp add: compute_block_def)

lemma compute_block_nth:
  "i < length qfps \<Longrightarrow> i < length qvalid \<Longrightarrow>
   compute_block sim qfps qvalid tfps tvalid ! i
     = (if \<not> qvalid ! i then replicate (length tfps) None
        else compute_row sim (qfps ! i) tfps tvalid)"
  by (simp add: compute_block_def)

lemma full_row_block_empty: "full_row_block sim fps valid [] b = Inl ValueError"
  by (cases b) (simp add: full_row_block_def hstack_def)

lemma full_row_block_rows:
  assumes "cb \<noteq> []" "re \<le> length fps" "length valid = length fps" "rs \<le> re"
  shows "\<exists>blk. full_row_block sim fps valid cb (rs, re) = Inr (rs, blk)
             \<and> rows_of (full_row sim fps valid cb) (length fps) (rs, blk)"
proof -
  define F where "F = (\<lambda>(cs, ce). compute_block sim (py_slice fps rs re) (py_slice valid rs re)
                                     (py_slice fps cs ce) (py_slice valid cs ce))"
  define blk where "blk = map (\<lambda>i. concat (map (\<lambda>q. q ! i) (map F cb))) [0..<re - rs]"
  obtain c cb' where cb: "cb = c # cb'" using assms(1) by (cases cb) auto
  have lenF: "length (F c) = re - rs" for c
    using assms by (cases c) (simp add: F_def compute_block_length py_slice_length)
  have "hstack (map F cb) = Inr blk"
    by (simp add: hstack_def cb blk_def lenF)
  then have frb: "full_row_block sim fps valid cb (rs, re) = Inr (rs, blk)"
    by (simp add: full_row_block_def Let_def F_def)
  have len: "length blk = re - rs" by (simp add: blk_def)
  have row: "blk ! i = full_row sim fps valid cb (rs + i)" if "i < re - rs" for i
  proof -
    have Fi: "F c ! i = (case c of (cs, ce) \<Rightarrow>
                 if \<not> valid ! (rs + i) then replicate (length (py_slice fps cs ce)) None
                 else compute_row sim (fps ! (rs + i)) (py_slice fps cs ce) (py_slice valid cs ce))" for c
      using that assms
      by (cases c) (simp add: F_def compute_block_nth py_slice_length py_slice_nth)
    have "blk ! i = concat (map (\<lambda>c. F c ! i) cb)"
      using that by (simp add: blk_def comp_def)
    also have "\<dots> = full_row sim fps valid cb (rs + i)"
      unfolding full_row_def by (simp add: Fi cong: map_cong)
    finally show ?thesis .
  qed
  have "rows_of (full_row sim fps valid cb) (length fps) (rs, blk)"
    using assms(2,4) row by (auto simp: rows_of_def len)
  with frb show ?thesis by blast
qed

lemma sequence_sum_Inr:
  "(\<forall>x\<in>set xs. f x = Inr (g x)) \<Longrightarrow> sequence_sum (map f xs) = Inr (map g xs)"
  by (induction xs) auto

lemma sequence_sum_Inl:
  "(\<exists>x\<in>set xs. f x = Inl ValueError) \<Longrightarrow> sequence_sum (map f xs) = Inl ValueError"
proof (induction xs)
  case Nil
  then show ?case by simp
next
  case (Cons x xs)
  have e: "e = ValueError" for e :: py_error by (cases e) simp
  show ?case
  proof (cases "f x")
    case (Inl a)
    then show ?thesis using e [of a] by simp
  next
    case (Inr v)
    with Cons have "sequence_sum (map f xs) = Inl ValueError" by auto
    with Inr show ?thesis by simp
  qed
qed

lemma make_batches_bounds:
  assumes "make_batches n bsz = Inr bs" "b \<in> set bs"
  shows "fst b \<le> snd b \<and> snd b \<le> n"
proof (cases "bsz > 0")
  case False
  with assms show ?thesis by (auto simp: make_batches_def split: if_splits)
next
  case True
  define s where "s = nat bsz"
  have s: "0 < s" using True by (simp add: s_def)
  from assms True obtain q where q: "q < (n + s - 1) div s" "b = (q * s, min (q * s + s) n)"
    by (auto simp: make_batches_def range_step_def s_def split: if_splits)
  from q(1) have "Suc q \<le> (n + s - 1) div s" by simp
  then have "Suc q * s \<le> n + s - 1"
    using s by (simp add: less_eq_div_iff_mult_less_eq)
  then have "q * s < n" using s by simp
  with q(2) show ?thesis by simp
qed

lemma set_round_robin:
  assumes "1 \<le> W"
  shows "set (concat (map (\<lambda>r. py_stride xs r W) [0..<W])) = set xs"
  using mset_round_robin [OF assms, of xs] by (rule mset_eq_setD)

lemma py_stride_subset: "set (py_stride xs r W) \<subseteq> set xs"
  by (auto simp: py_stride_def stride_indices_def)

lemma py_stride_rank0:
  assumes "1 \<le> W" "xs \<noteq> []"
  shows "xs ! 0 \<in> set (py_stride xs 0 W)"
proof -
  have "0 \<in> set (stride_indices (length xs) 0 W)"
    using assms by (simp add: stride_indices_def)
  then show ?thesis unfolding py_stride_def by force
qed


lemma gathered_ok:
  assumes W: "1 \<le> W"
    and blk: "\<forall>b\<in>set rb. full_row_block sim fps valid cb b = Inr (blk b)"
  shows "sequence_sum (map (\<lambda>rank. my_blocks sim fps valid rb cb rank W) [0..<W])
           = Inr (map (\<lambda>rank. map blk (py_stride rb rank W)) [0..<W])"
    and "set (concat (map (\<lambda>rank. map blk (py_stride rb rank W)) [0..<W])) = blk ` set rb"
proof -
  have one: "my_blocks sim fps valid rb cb rank W = Inr (map blk (py_stride rb rank W))" for rank
    unfolding my_blocks_def my_row_batches_def
    by (rule sequence_sum_Inr) (use blk py_stride_subset [of rb rank W] in auto)
  show "sequence_sum (map (\<lambda>rank. my_blocks sim fps valid rb cb rank W) [0..<W])
           = Inr (map (\<lambda>rank. map blk (py_stride rb rank W)) [0..<W])"
    by (rule sequence_sum_Inr) (simp add: one)
  have "concat (map (\<lambda>rank. map blk (py_stride rb rank W)) [0..<W])
          = map blk (concat (map (\<lambda>rank. py_stride rb rank W) [0..<W]))"
    by (simp add: map_concat comp_def)
  then show "set (concat (map (\<lambda>rank. map blk (py_stride rb rank W)) [0..<W])) = blk ` set rb"
    by (simp only: set_map set_round_robin [OF W])
qed

lemma gathered_error:
  assumes W: "1 \<le> W" and rb: "rb \<noteq> []"
  shows "sequence_sum (map (\<lambda>rank. my_blocks sim fps valid rb [] rank W) [0..<W]) = Inl ValueError"
proof (rule sequence_sum_Inl)
  have "my_blocks sim fps valid rb [] 0 W = Inl ValueError"
    unfolding my_blocks_def my_row_batches_def
    by (rule sequence_sum_Inl) (use py_stride_rank0 [OF W rb] full_row_block_empty in blast)
  moreover have "0 \<in> set [0..<W]" using W by simp
  ultimately show "\<exists>rank\<in>set [0..<W]. my_blocks sim fps valid rb [] rank W = Inl ValueError"
    by blast
qed

text \<open>
  Claim C10. For every list of fingerprints, every pair of batch sizes and every number
  of ranks \<open>W \<ge> 1\<close>, the matrix assembled on rank 0 before the symmetrisation (or the
  error raised on the way) is the one a single rank produces.
\<close>

theorem global_matrix_any_ranks:
  assumes "1 \<le> W"
  shows "global_matrix sim fps row_batch col_batch W = global_matrix sim fps row_batch col_batch 1"
proof (cases "make_batches (length fps) row_batch")
  case (Inl e)
  then show ?thesis by (simp add: global_matrix_def)
next
  case rbI: (Inr rb)
  show ?thesis
  proof (cases "make_batches (length fps) col_batch")
    case (Inl e)
    then show ?thesis by (simp add: global_matrix_def rbI)
  next
    case cbI: (Inr cb)
    define valid where "valid = map (\<lambda>fp. fp \<noteq> None) fps"
    define G where "G = (\<lambda>k. sequence_sum (map (\<lambda>rank. my_blocks sim fps valid rb cb rank k) [0..<k]))"
    have unfold: "global_matrix sim fps row_batch col_batch k
                    = (case G k of Inl e \<Rightarrow> Inl e | Inr gathered \<Rightarrow> Inr (assemble (length fps) gathered))"
      for k
      by (simp add: global_matrix_def rbI cbI G_def valid_def Let_def)
    have one: "(1::nat) \<le> 1" by simp
    show ?thesis
    proof (cases "cb = [] \<and> rb \<noteq> []")
      case True
      then have "G W = Inl ValueError" "G 1 = Inl ValueError"
        unfolding G_def using gathered_error [OF assms, of rb] gathered_error [OF one, of rb]
        by auto
      then show ?thesis unfolding unfold by simp
    next
      case False
      have "\<forall>b\<in>set rb. \<exists>v. full_row_block sim fps valid cb b = Inr v
                \<and> rows_of (full_row sim fps valid cb) (length fps) v"
      proof
        fix b assume b: "b \<in> set rb"
        with False have cb: "cb \<noteq> []" by auto
        obtain rs re where p: "b = (rs, re)" by (cases b)
        from make_batches_bounds [OF rbI b] p have "rs \<le> re" "re \<le> length fps" by auto
        with full_row_block_rows [OF cb, of re fps valid rs sim] p
        show "\<exists>v. full_row_block sim fps valid cb b = Inr v
                \<and> rows_of (full_row sim fps valid cb) (length fps) v"
          by (auto simp: valid_def)
      qed
      from bchoice [OF this] obtain blk where blk:
        "\<forall>b\<in>set rb. full_row_block sim fps valid cb b = Inr (blk b)
              \<and> rows_of (full_row sim fps valid cb) (length fps) (blk b)"
        by blast
      then have ok: "\<forall>b\<in>set rb. full_row_block sim fps valid cb b = Inr (blk b)" by blast
      let ?g = "\<lambda>k. map (\<lambda>rank. map blk (py_stride rb rank k)) [0..<k]"
      have GW: "G W = Inr (?g W)" and G1: "G 1 = Inr (?g 1)"
        unfolding G_def by (rule gathered_ok(1) [OF assms ok], rule gathered_ok(1) [OF one ok])
      have sW: "set (concat (?g W)) = blk ` set rb" by (rule gathered_ok(2) [OF assms ok])
      have s1: "set (concat (?g 1)) = blk ` set rb" by (rule gathered_ok(2) [OF one ok])
      have "assemble (length fps) (?g W) = assemble (length fps) (?g 1)"
      proof (rule assemble_set_eq)
        show "\<forall>b\<in>set (concat (?g W)). rows_of (full_row sim fps valid cb) (length fps) b"
          unfolding sW using blk by blast
        show "set (concat (?g W)) = set (concat (?g 1))"
          by (simp only: sW s1)
      qed
      then show ?thesis unfolding unfold GW G1 by simp
    qed
  qed
qed

theorem global_matrix_any_ranks_witness:
  "(1::nat) \<le> 2
   \<and> global_matrix (\<lambda>a b. if a = b then 1 else 1 / 2) [Some (1::nat), None, Some 3] 2 2 2
       = Inr [[Some 1, None, Some (1 / 2)], [None, None, None], [Some (1 / 2), None, Some 1]]"
proof -
  have h: "(1::nat) \<le> 2" by simp
  have one: "global_matrix (\<lambda>a b. if a = b then 1 else 1 / 2) [Some (1::nat), None, Some 3] 2 2 1
       = Inr [[Some 1, None, Some (1 / 2)], [None, None, None], [Some (1 / 2), None, Some 1]]"
    by code_simp
  show ?thesis
    using h one
      global_matrix_any_ranks [OF h, of "\<lambda>a b. if a = b then 1 else 1 / 2"
        "[Some (1::nat), None, Some 3]" 2 2]
    by simp
qed

section \<open>Properties of the group aggregation\<close>

lemma pd_values_Some: "pd_values (map Some xs) = xs"
  by (induction xs) (simp_all add: pd_values_def List.map_filter_simps)

lemma pd_min_Min: "pd_values col \<noteq> [] \<Longrightarrow> pd_min col = Some (Min (set (pd_values col)))"
  by (cases "pd_values col") (simp_all add: pd_min_def flip: Min.set_eq_fold)

lemma file_result_self:
  "species_a f = species_b f \<Longrightarrow> file_result seq_count f = Inr (Some (Fin 100))"
  by (simp add: file_result_def)

lemma file_result_other:
  "species_a f \<noteq> species_b f \<Longrightarrow> seq_count (species_a f) = Some na \<Longrightarrow>
   seq_count (species_b f) = Some nb \<Longrightarrow> avg_pident_col f = Some col \<Longrightarrow>
   file_result seq_count f =
     (case speciesSimilarity na nb col of Inl e \<Rightarrow> Inl e | Inr v \<Rightarrow> Inr (Some v))"
  by (simp add: file_result_def)

lemma speciesSimilarity_full:
  assumes "min na nb \<le> int (length col)" and "col \<noteq> [] \<or> min na nb \<noteq> 0"
  shows "speciesSimilarity na nb col = Inr (np_div (Some (sum_list (pd_values col))) (min na nb))"
proof -
  from assms(1) have a: "\<not> int (length col) < min na nb" by linarith
  from assms(2) have b: "\<not> (col = [] \<and> min na nb = 0)" by blast
  show ?thesis
    unfolding speciesSimilarity_def Let_def pd_sum_def by (simp only: a b if_False)
qed

lemma speciesSimilarity_raises:
  assumes "col = []" and "min na nb = 0"
  shows "speciesSimilarity na nb col = Inl ZeroDivisionError"
  using assms by (simp add: speciesSimilarity_def)

lemma speciesSimilarity_padded:
  assumes "int (length col) < min na nb" "pd_values col \<noteq> []"
  shows "speciesSimilarity na nb col =
           Inr (Fin ((sum_list (pd_values col)
                       + of_int (min na nb - int (length col)) * Min (set (pd_values col)))
                     / of_int (min na nb)))"
proof -
  define m where "m = min na nb"
  have m2: "int (length col) < m" using assms(1) by (simp only: m_def)
  then have m1: "m \<noteq> 0" by linarith
  have "speciesSimilarity na nb col
          = Inr (np_div (Some (sum_list (pd_values col)
                           + of_int (m - int (length col)) * Min (set (pd_values col)))) m)"
    unfolding speciesSimilarity_def Let_def pd_sum_def m_def [symmetric]
    using m2 by (simp add: pd_min_Min [OF assms(2)])
  also have "np_div (Some (sum_list (pd_values col)
                           + of_int (m - int (length col)) * Min (set (pd_values col)))) m
           = Fin ((sum_list (pd_values col)
                           + of_int (m - int (length col)) * Min (set (pd_values col))) / of_int m)"
    using m1 by (simp add: np_div_def)
  finally show ?thesis by (simp only: m_def)
qed

text \<open>
  Claim C5. For a file of two different groups with counts \<open>nA\<close>, \<open>nB\<close> and
  \<open>minMatches = min nA nB\<close>: with at least \<open>minMatches\<close> chosen records and
  \<open>minMatches\<close> not zero, the similarity is the sum of the (non-NaN) \<open>avgPident\<close> values
  divided by \<open>minMatches\<close>; with fewer records, but some, it is the sum plus the shortfall
  times the least \<open>avgPident\<close>, divided by \<open>minMatches\<close>; for a file of one group with
  itself it is 100 whatever the file holds. Where \<open>minMatches\<close> is zero the division is a
  division by zero: its floating-point result when the file has a record, and a
  \<^verbatim>\<open>ZeroDivisionError\<close> when it has none.
\<close>

theorem group_similarity_formula:
  "(species_a f = species_b f \<longrightarrow> file_result seq_count f = Inr (Some (Fin 100)))
   \<and> (species_a f \<noteq> species_b f \<and> seq_count (species_a f) = Some na
        \<and> seq_count (species_b f) = Some nb \<and> avg_pident_col f = Some col \<longrightarrow>
       (min na nb \<le> int (length col) \<and> min na nb \<noteq> 0 \<longrightarrow>
          file_result seq_count f
            = Inr (Some (Fin (sum_list (pd_values col) / of_int (min na nb)))))
     \<and> (0 < length col \<and> int (length col) < min na nb \<and> pd_values col \<noteq> [] \<longrightarrow>
          file_result seq_count f =
            Inr (Some (Fin ((sum_list (pd_values col)
                              + of_int (min na nb - int (length col)) * Min (set (pd_values col)))
                            / of_int (min na nb)))))
     \<and> (min na nb \<le> int (length col) \<and> col \<noteq> [] \<longrightarrow>
          file_result seq_count f
            = Inr (Some (np_div (Some (sum_list (pd_values col))) (min na nb))))
     \<and> (col = [] \<and> min na nb = 0 \<longrightarrow> file_result seq_count f = Inl ZeroDivisionError))"
proof (intro conjI impI)
  assume "species_a f = species_b f"
  then show "file_result seq_count f = Inr (Some (Fin 100))"
    by (rule file_result_self)
next
  assume h: "species_a f \<noteq> species_b f \<and> seq_count (species_a f) = Some na
        \<and> seq_count (species_b f) = Some nb \<and> avg_pident_col f = Some col"
  then have fr: "file_result seq_count f =
     (case speciesSimilarity na nb col of Inl e \<Rightarrow> Inl e | Inr v \<Rightarrow> Inr (Some v))"
    by (simp add: file_result_other)
  {
    assume g: "min na nb \<le> int (length col) \<and> min na nb \<noteq> 0"
    then have "speciesSimilarity na nb col
                 = Inr (np_div (Some (sum_list (pd_values col))) (min na nb))"
      by (simp add: speciesSimilarity_full)
    moreover have "np_div (Some (sum_list (pd_values col))) (min na nb)
                 = Fin (sum_list (pd_values col) / of_int (min na nb))"
      using g by (simp add: np_div_def)
    ultimately show "file_result seq_count f
            = Inr (Some (Fin (sum_list (pd_values col) / of_int (min na nb))))"
      by (simp add: fr)
  }
  {
    assume "0 < length col \<and> int (length col) < min na nb \<and> pd_values col \<noteq> []"
    then show "file_result seq_count f =
            Inr (Some (Fin ((sum_list (pd_values col)
                              + of_int (min na nb - int (length col)) * Min (set (pd_values col)))
                            / of_int (min na nb))))"
      by (simp add: fr speciesSimilarity_padded)
  }
  {
    assume "min na nb \<le> int (length col) \<and> col \<noteq> []"
    then show "file_result seq_count f
            = Inr (Some (np_div (Some (sum_list (pd_values col))) (min na nb)))"
      by (simp add: fr speciesSimilarity_full)
  }
  {
    assume "col = [] \<and> min na nb = 0"
    then show "file_result seq_count f = Inl ZeroDivisionError"
      by (simp add: fr speciesSimilarity_raises)
  }
qed

theorem group_similarity_formula_witness:
  "file_result [''A'' \<mapsto> 3, ''B'' \<mapsto> 2]
      \<lparr>species_a = ''A'', species_b = ''B'', avg_pident_col = Some [Some 80]\<rparr>
     = Inr (Some (Fin 80))
   \<and> file_result [''A'' \<mapsto> 3, ''B'' \<mapsto> 2]
      \<lparr>species_a = ''A'', species_b = ''B'', avg_pident_col = Some [Some 90, Some 70]\<rparr>
     = Inr (Some (Fin 80))
   \<and> file_result [''A'' \<mapsto> 3, ''B'' \<mapsto> 2]
      \<lparr>species_a = ''A'', species_b = ''A'', avg_pident_col = None\<rparr>
     = Inr (Some (Fin 100))
   \<and> file_result [''A'' \<mapsto> 0, ''B'' \<mapsto> 5]
      \<lparr>species_a = ''A'', species_b = ''B'', avg_pident_col = Some []\<rparr>
     = Inl ZeroDivisionError"
proof -
  let ?seq = "[''A'' \<mapsto> 3, ''B'' \<mapsto> (2::int)]"
  let ?zero = "[''A'' \<mapsto> 0, ''B'' \<mapsto> (5::int)]"
  have v1: "pd_values [Some 80] = [80]" and v2: "pd_values [Some 90, Some 70] = [90, 70]"
    by (simp_all add: pd_values_def List.map_filter_simps)
  from group_similarity_formula
         [of "\<lparr>species_a = ''A'', species_b = ''B'', avg_pident_col = Some [Some 80]\<rparr>"
             ?seq 3 2 "[Some 80]"]
  have a: "file_result ?seq
      \<lparr>species_a = ''A'', species_b = ''B'', avg_pident_col = Some [Some 80]\<rparr>
     = Inr (Some (Fin 80))"
    by (auto simp: v1 np_div_def)
  from group_similarity_formula
         [of "\<lparr>species_a = ''A'', species_b = ''B'', avg_pident_col = Some [Some 90, Some 70]\<rparr>"
             ?seq 3 2 "[Some 90, Some 70]"]
  have b: "file_result ?seq
      \<lparr>species_a = ''A'', species_b = ''B'', avg_pident_col = Some [Some 90, Some 70]\<rparr>
     = Inr (Some (Fin 80))"
    by (auto simp: v2 np_div_def)
  from group_similarity_formula
         [of "\<lparr>species_a = ''A'', species_b = ''A'', avg_pident_col = None\<rparr>" ?seq 3 2 "[]"]
  have c: "file_result ?seq
      \<lparr>species_a = ''A'', species_b = ''A'', avg_pident_col = None\<rparr> = Inr (Some (Fin 100))"
    by simp
  from group_similarity_formula
         [of "\<lparr>species_a = ''A'', species_b = ''B'', avg_pident_col = Some []\<rparr>" ?zero 0 5 "[]"]
  have d: "file_result ?zero
      \<lparr>species_a = ''A'', species_b = ''B'', avg_pident_col = Some []\<rparr> = Inl ZeroDivisionError"
    by simp
  from a b c d show ?thesis by blast
qed

text \<open>
  Claim C2. A file of two different groups with no record and \<open>minMatches > 0\<close> should be
  skipped or rejected. The loop neither skips it nor raises: the minimum of the empty
  column is NaN, the similarity is NaN, it is stored, and with no mirrored file it is the
  value of the cell in the written matrix. Here for the counts 3 and 2.
\<close>

theorem empty_file_gives_nan:
  "file_result [''A'' \<mapsto> 3, ''B'' \<mapsto> 2]
      \<lparr>species_a = ''A'', species_b = ''B'', avg_pident_col = Some []\<rparr> = Inr (Some NaN)
   \<and> results_of [''A'' \<mapsto> 3, ''B'' \<mapsto> 2]
        [\<lparr>species_a = ''A'', species_b = ''B'', avg_pident_col = Some []\<rparr>]
      = Inr [(''A'', ''B'') \<mapsto> NaN]
   \<and> ''A'' \<in> labels [(''A'', ''B'') \<mapsto> NaN]
   \<and> ''B'' \<in> labels [(''A'', ''B'') \<mapsto> NaN]
   \<and> similarity_matrix [(''A'', ''B'') \<mapsto> NaN] ''A'' ''B'' = NaN"
proof -
  have r: "file_result [''A'' \<mapsto> 3, ''B'' \<mapsto> 2]
      \<lparr>species_a = ''A'', species_b = ''B'', avg_pident_col = Some []\<rparr> = Inr (Some NaN)"
    by (simp add: file_result_def speciesSimilarity_def pd_sum_def pd_min_def pd_values_def
          List.map_filter_simps np_div_def Let_def)
  show ?thesis
    by (simp add: results_of_def results_step_def r similarity_matrix_def combine_first_T_def
          frame_cell_def labels_def)
qed

text \<open>
  Claim C3, as stated, fails: \<^verbatim>\<open>combine_first\<close> fills only the undefined cells, so two
  files \<open>A_vs_B\<close> and \<open>B_vs_A\<close> with different similarities leave two different values in
  the mirrored cells.
\<close>

theorem similarity_matrix_not_symmetric:
  "results_of [''A'' \<mapsto> 1, ''B'' \<mapsto> 1]
      [\<lparr>species_a = ''A'', species_b = ''B'', avg_pident_col = Some [Some 80]\<rparr>,
       \<lparr>species_a = ''B'', species_b = ''A'', avg_pident_col = Some [Some 70]\<rparr>]
     = Inr [(''A'', ''B'') \<mapsto> Fin 80, (''B'', ''A'') \<mapsto> Fin 70]
   \<and> ''A'' \<in> labels [(''A'', ''B'') \<mapsto> Fin 80, (''B'', ''A'') \<mapsto> Fin 70]
   \<and> ''B'' \<in> labels [(''A'', ''B'') \<mapsto> Fin 80, (''B'', ''A'') \<mapsto> Fin 70]
   \<and> similarity_matrix [(''A'', ''B'') \<mapsto> Fin 80, (''B'', ''A'') \<mapsto> Fin 70] ''A'' ''B'' = Fin 80
   \<and> similarity_matrix [(''A'', ''B'') \<mapsto> Fin 80, (''B'', ''A'') \<mapsto> Fin 70] ''B'' ''A'' = Fin 70
   \<and> similarity_matrix [(''A'', ''B'') \<mapsto> Fin 80, (''B'', ''A'') \<mapsto> Fin 70] ''A'' ''B''
     \<noteq> similarity_matrix [(''A'', ''B'') \<mapsto> Fin 80, (''B'', ''A'') \<mapsto> Fin 70] ''B'' ''A''"
proof -
  have r1: "file_result [''A'' \<mapsto> 1, ''B'' \<mapsto> 1]
      \<lparr>species_a = ''A'', species_b = ''B'', avg_pident_col = Some [Some 80]\<rparr>
        = Inr (Some (Fin 80))"
    by (simp add: file_result_def speciesSimilarity_def pd_sum_def pd_min_def pd_values_def
          List.map_filter_simps np_div_def Let_def)
  have r2: "file_result [''A'' \<mapsto> 1, ''B'' \<mapsto> 1]
      \<lparr>species_a = ''B'', species_b = ''A'', avg_pident_col = Some [Some 70]\<rparr>
        = Inr (Some (Fin 70))"
    by (simp add: file_result_def speciesSimilarity_def pd_sum_def pd_min_def pd_values_def
          List.map_filter_simps np_div_def Let_def)
  show ?thesis
    by (simp add: results_of_def results_step_def r1 r2 similarity_matrix_def combine_first_T_def
          frame_cell_def labels_def)
qed

text \<open>
  Claim C3, amended. Whenever the script reaches the output, with the stored results
  \<open>R\<close>: every diagonal cell of the written matrix is 100, whatever was computed for it;
  off the diagonal a cell with a computed (non-NaN) result keeps that result, and a cell
  without one takes the result of the mirrored cell. So the cells \<open>(A, B)\<close> and \<open>(B, A)\<close>
  are equal whenever at most one of the two directions has a computed result or both
  results are equal, and where both directions have computed results that differ, each
  cell keeps its own and the two cells differ.
\<close>

theorem similarity_matrix_filled:
  assumes "results_of seq_count files = Inr R"
  shows "(\<forall>A\<in>labels R. similarity_matrix R A A = Fin 100)
       \<and> (\<forall>A B. A \<noteq> B \<and> frame_cell R A B \<noteq> NaN
              \<longrightarrow> similarity_matrix R A B = frame_cell R A B)
       \<and> (\<forall>A B. A \<noteq> B \<and> frame_cell R A B = NaN
              \<longrightarrow> similarity_matrix R A B = frame_cell R B A)
       \<and> (\<forall>A B. frame_cell R A B = NaN \<or> frame_cell R B A = NaN
                \<or> frame_cell R A B = frame_cell R B A
              \<longrightarrow> similarity_matrix R A B = similarity_matrix R B A)
       \<and> (\<forall>A B. frame_cell R A B \<noteq> NaN \<and> frame_cell R B A \<noteq> NaN
                \<and> frame_cell R A B \<noteq> frame_cell R B A
              \<longrightarrow> similarity_matrix R A B = frame_cell R A B
                \<and> similarity_matrix R B A = frame_cell R B A
                \<and> similarity_matrix R A B \<noteq> similarity_matrix R B A)"
proof (intro conjI allI impI ballI)
  fix A show "similarity_matrix R A A = Fin 100"
    by (simp add: similarity_matrix_def)
next
  fix A B assume "A \<noteq> B \<and> frame_cell R A B \<noteq> NaN"
  then show "similarity_matrix R A B = frame_cell R A B"
    by (simp add: similarity_matrix_def combine_first_T_def)
next
  fix A B assume "A \<noteq> B \<and> frame_cell R A B = NaN"
  then show "similarity_matrix R A B = frame_cell R B A"
    by (simp add: similarity_matrix_def combine_first_T_def)
next
  fix A B
  assume "frame_cell R A B = NaN \<or> frame_cell R B A = NaN
            \<or> frame_cell R A B = frame_cell R B A"
  then show "similarity_matrix R A B = similarity_matrix R B A"
    by (auto simp: similarity_matrix_def combine_first_T_def)
next
  fix A B
  assume h: "frame_cell R A B \<noteq> NaN \<and> frame_cell R B A \<noteq> NaN
            \<and> frame_cell R A B \<noteq> frame_cell R B A"
  then have ne: "A \<noteq> B" by auto
  from h ne show "similarity_matrix R A B = frame_cell R A B"
    by (simp add: similarity_matrix_def combine_first_T_def)
  from h ne show "similarity_matrix R B A = frame_cell R B A"
    by (auto simp: similarity_matrix_def combine_first_T_def)
  from h ne show "similarity_matrix R A B \<noteq> similarity_matrix R B A"
    by (auto simp: similarity_matrix_def combine_first_T_def)
qed

theorem similarity_matrix_filled_witness:
  "results_of [''A'' \<mapsto> 3, ''B'' \<mapsto> 2, ''C'' \<mapsto> 1]
      [\<lparr>species_a = ''A'', species_b = ''B'', avg_pident_col = Some [Some 90, Some 70]\<rparr>,
       \<lparr>species_a = ''B'', species_b = ''A'', avg_pident_col = Some [Some 60, Some 60]\<rparr>,
       \<lparr>species_a = ''A'', species_b = ''C'', avg_pident_col = Some [Some 50]\<rparr>]
     = Inr [(''A'', ''B'') \<mapsto> Fin 80, (''B'', ''A'') \<mapsto> Fin 60, (''A'', ''C'') \<mapsto> Fin 50]
   \<and> ''C'' \<in> labels [(''A'', ''B'') \<mapsto> Fin 80, (''B'', ''A'') \<mapsto> Fin 60, (''A'', ''C'') \<mapsto> Fin 50]
   \<and> similarity_matrix [(''A'', ''B'') \<mapsto> Fin 80, (''B'', ''A'') \<mapsto> Fin 60, (''A'', ''C'') \<mapsto> Fin 50]
        ''C'' ''C'' = Fin 100
   \<and> similarity_matrix [(''A'', ''B'') \<mapsto> Fin 80, (''B'', ''A'') \<mapsto> Fin 60, (''A'', ''C'') \<mapsto> Fin 50]
        ''A'' ''C'' = Fin 50
   \<and> similarity_matrix [(''A'', ''B'') \<mapsto> Fin 80, (''B'', ''A'') \<mapsto> Fin 60, (''A'', ''C'') \<mapsto> Fin 50]
        ''C'' ''A'' = Fin 50
   \<and> similarity_matrix [(''A'', ''B'') \<mapsto> Fin 80, (''B'', ''A'') \<mapsto> Fin 60, (''A'', ''C'') \<mapsto> Fin 50]
        ''A'' ''B'' = Fin 80
   \<and> similarity_matrix [(''A'', ''B'') \<mapsto> Fin 80, (''B'', ''A'') \<mapsto> Fin 60, (''A'', ''C'') \<mapsto> Fin 50]
        ''B'' ''A'' = Fin 60"
proof -
  let ?seq = "[''A'' \<mapsto> 3, ''B'' \<mapsto> 2, ''C'' \<mapsto> (1::int)]"
  let ?files = "[\<lparr>species_a = ''A'', species_b = ''B'', avg_pident_col = Some [Some 90, Some 70]\<rparr>,
       \<lparr>species_a = ''B'', species_b = ''A'', avg_pident_col = Some [Some 60, Some 60]\<rparr>,
       \<lparr>species_a = ''A'', species_b = ''C'', avg_pident_col = Some [Some 50]\<rparr>]"
  let ?R = "[(''A'', ''B'') \<mapsto> Fin 80, (''B'', ''A'') \<mapsto> Fin 60, (''A'', ''C'') \<mapsto> Fin 50]"
  have r1: "file_result ?seq
      \<lparr>species_a = ''A'', species_b = ''B'', avg_pident_col = Some [Some 90, Some 70]\<rparr>
        = Inr (Some (Fin 80))"
    by (simp add: file_result_def speciesSimilarity_def pd_sum_def pd_min_def pd_values_def
          List.map_filter_simps np_div_def Let_def)
  have r2: "file_result ?seq
      \<lparr>species_a = ''B'', species_b = ''A'', avg_pident_col = Some [Some 60, Some 60]\<rparr>
        = Inr (Some (Fin 60))"
    by (simp add: file_result_def speciesSimilarity_def pd_sum_def pd_min_def pd_values_def
          List.map_filter_simps np_div_def Let_def)
  have r3: "file_result ?seq
      \<lparr>species_a = ''A'', species_b = ''C'', avg_pident_col = Some [Some 50]\<rparr>
        = Inr (Some (Fin 50))"
    by (simp add: file_result_def speciesSimilarity_def pd_sum_def pd_min_def pd_values_def
          List.map_filter_simps np_div_def Let_def)
  have R: "results_of ?seq ?files = Inr ?R"
    by (simp add: results_of_def results_step_def r1 r2 r3)
  have lab: "''C'' \<in> labels ?R"
    by (simp add: labels_def)
  have f: "frame_cell ?R ''A'' ''C'' = Fin 50" "frame_cell ?R ''C'' ''A'' = NaN"
      "frame_cell ?R ''A'' ''B'' = Fin 80" "frame_cell ?R ''B'' ''A'' = Fin 60"
    by (simp_all add: frame_cell_def)
  note t = similarity_matrix_filled [OF R]
  from t lab have diag: "similarity_matrix ?R ''C'' ''C'' = Fin 100"
    by blast
  from t have keep: "A \<noteq> B \<Longrightarrow> frame_cell ?R A B \<noteq> NaN
                       \<Longrightarrow> similarity_matrix ?R A B = frame_cell ?R A B" for A B
    by blast
  from t have fill: "A \<noteq> B \<Longrightarrow> frame_cell ?R A B = NaN
                       \<Longrightarrow> similarity_matrix ?R A B = frame_cell ?R B A" for A B
    by blast
  have ac: "similarity_matrix ?R ''A'' ''C'' = Fin 50"
    using keep [of "''A''" "''C''"] f by simp
  have ca: "similarity_matrix ?R ''C'' ''A'' = Fin 50"
    using fill [of "''C''" "''A''"] f by simp
  have ab: "similarity_matrix ?R ''A'' ''B'' = Fin 80"
    using keep [of "''A''" "''B''"] f by simp
  have ba: "similarity_matrix ?R ''B'' ''A'' = Fin 60"
    using keep [of "''B''" "''A''"] f by simp
  from R lab diag ac ca ab ba show ?thesis by blast
qed

section \<open>Properties of the merge\<close>

lemma avg_two_cases:
  "avg_two a b = (case (a, b) of (Some x, Some y) \<Rightarrow> Some ((x + y) / 2)
     | (Some x, None) \<Rightarrow> Some x | (None, Some y) \<Rightarrow> Some y | (None, None) \<Rightarrow> None)"
  by (cases a; cases b) (simp_all add: avg_two_def)

lemma truncate_with_merge: "hit.truncate (with_merge c s pa pb) = c"
  by (simp add: with_merge_def hit.truncate_def)

lemma merge_symmetric_avg_pident:
  "merge_symmetric a2b b2a how k = Some rec \<Longrightarrow>
   avg_pident rec = avg_two (pident_a2b rec) (pident_b2a rec)"
  by (auto simp: merge_symmetric_def with_merge_def split: option.splits if_splits)

text \<open>
  Claim C6. With both directional records present the combined score is the mean
  (\<open>avg\<close>), the maximum (\<open>max\<close>) or the minimum (\<open>min\<close>) of the two bit scores, and the
  six fields of a directional record are those of the side with the higher (\<open>avg\<close>, \<open>max\<close>)
  or the lower (\<open>min\<close>) bit score, the first side on a tie. With one record present its bit
  score is the combined score and the percent identity of the missing side is NaN. The
  averaged percent identity is the mean of the two when both are numbers, else the one that
  is a number, else NaN.
\<close>

theorem merge_symmetric_record:
  "(a2b k = Some v1 \<and> b2a k = Some v2 \<longrightarrow>
      (\<exists>rec. merge_symmetric a2b b2a how k = Some rec
         \<and> (how = ''avg'' \<longrightarrow> score rec = (bitscore v1 + bitscore v2) / 2)
         \<and> (how = ''max'' \<longrightarrow> score rec = max (bitscore v1) (bitscore v2))
         \<and> (how = ''min'' \<longrightarrow> score rec = min (bitscore v1) (bitscore v2))
         \<and> (how = ''avg'' \<or> how = ''max'' \<longrightarrow>
              hit.truncate rec = (if bitscore v1 \<ge> bitscore v2 then v1 else v2))
         \<and> (how = ''min'' \<longrightarrow>
              hit.truncate rec = (if bitscore v1 \<le> bitscore v2 then v1 else v2))
         \<and> pident_a2b rec = pident v1 \<and> pident_b2a rec = pident v2))
   \<and> (a2b k = Some v1 \<and> b2a k = None \<longrightarrow>
      (\<exists>rec. merge_symmetric a2b b2a how k = Some rec
         \<and> score rec = bitscore v1 \<and> hit.truncate rec = v1
         \<and> pident_a2b rec = pident v1 \<and> pident_b2a rec = None))
   \<and> (a2b k = None \<and> b2a k = Some v2 \<longrightarrow>
      (\<exists>rec. merge_symmetric a2b b2a how k = Some rec
         \<and> score rec = bitscore v2 \<and> hit.truncate rec = v2
         \<and> pident_a2b rec = None \<and> pident_b2a rec = pident v2))
   \<and> (a2b k = None \<and> b2a k = None \<longrightarrow> merge_symmetric a2b b2a how k = None)
   \<and> (\<forall>rec. merge_symmetric a2b b2a how k = Some rec \<longrightarrow>
         avg_pident rec =
           (case (pident_a2b rec, pident_b2a rec) of
              (Some x, Some y) \<Rightarrow> Some ((x + y) / 2)
            | (Some x, None) \<Rightarrow> Some x
            | (None, Some y) \<Rightarrow> Some y
            | (None, None) \<Rightarrow> None))"
proof (intro conjI impI allI)
  fix rec assume "merge_symmetric a2b b2a how k = Some rec"
  then show "avg_pident rec =
           (case (pident_a2b rec, pident_b2a rec) of
              (Some x, Some y) \<Rightarrow> Some ((x + y) / 2)
            | (Some x, None) \<Rightarrow> Some x
            | (None, Some y) \<Rightarrow> Some y
            | (None, None) \<Rightarrow> None)"
    by (simp only: merge_symmetric_avg_pident avg_two_cases)
qed (auto simp: merge_symmetric_def truncate_with_merge, auto simp: with_merge_def)


theorem merge_symmetric_record_witness:
  "map_option score
     (merge_symmetric
        [(''a1'', ''b1'') \<mapsto> \<lparr>qseqid = ''a1'', sseqid = ''b1'', pident = Some 90,
                               hit_length = 100, evalue = 0, bitscore = 200\<rparr>]
        [(''a1'', ''b1'') \<mapsto> \<lparr>qseqid = ''a1'', sseqid = ''b1'', pident = None,
                               hit_length = 120, evalue = 0, bitscore = 100\<rparr>]
        ''avg'' (''a1'', ''b1'')) = Some 150
   \<and> map_option hit_length
     (merge_symmetric
        [(''a1'', ''b1'') \<mapsto> \<lparr>qseqid = ''a1'', sseqid = ''b1'', pident = Some 90,
                               hit_length = 100, evalue = 0, bitscore = 200\<rparr>]
        [(''a1'', ''b1'') \<mapsto> \<lparr>qseqid = ''a1'', sseqid = ''b1'', pident = None,
                               hit_length = 120, evalue = 0, bitscore = 100\<rparr>]
        ''avg'' (''a1'', ''b1'')) = Some 100
   \<and> map_option avg_pident
     (merge_symmetric
        [(''a1'', ''b1'') \<mapsto> \<lparr>qseqid = ''a1'', sseqid = ''b1'', pident = Some 90,
                               hit_length = 100, evalue = 0, bitscore = 200\<rparr>]
        [(''a1'', ''b1'') \<mapsto> \<lparr>qseqid = ''a1'', sseqid = ''b1'', pident = None,
                               hit_length = 120, evalue = 0, bitscore = 100\<rparr>]
        ''avg'' (''a1'', ''b1'')) = Some (Some 90)"
proof -
  let ?v1 = "\<lparr>qseqid = ''a1'', sseqid = ''b1'', pident = Some 90,
               hit_length = 100, evalue = 0, bitscore = 200\<rparr> :: string hit"
  let ?v2 = "\<lparr>qseqid = ''a1'', sseqid = ''b1'', pident = None,
               hit_length = 120, evalue = 0, bitscore = 100\<rparr> :: string hit"
  let ?m = "merge_symmetric [(''a1'', ''b1'') \<mapsto> ?v1] [(''a1'', ''b1'') \<mapsto> ?v2] ''avg'' (''a1'', ''b1'')"
  from merge_symmetric_record [of "[(''a1'', ''b1'') \<mapsto> ?v1]" "(''a1'', ''b1'')" ?v1
         "[(''a1'', ''b1'') \<mapsto> ?v2]" ?v2 "''avg''"]
  obtain rec where rec: "?m = Some rec" "score rec = (bitscore ?v1 + bitscore ?v2) / 2"
      "hit.truncate rec = ?v1" "pident_a2b rec = pident ?v1" "pident_b2a rec = pident ?v2"
      "avg_pident rec = (case (pident_a2b rec, pident_b2a rec) of
              (Some x, Some y) \<Rightarrow> Some ((x + y) / 2)
            | (Some x, None) \<Rightarrow> Some x
            | (None, Some y) \<Rightarrow> Some y
            | (None, None) \<Rightarrow> None)"
    by auto
  have "hit_length (hit.truncate rec) = hit_length rec"
    by (simp add: hit.truncate_def)
  with rec show ?thesis by simp
qed

section \<open>Properties of the input order\<close>

lemma mirrored_step:
  assumes "mirrored D D'"
  shows "mirrored (to_dir_step True emax Lmin r D) (to_dir_step False emax Lmin r D')"
proof -
  have eq: "map_option bitscore (D (sseqid r, qseqid r)) = map_option bitscore (D' (qseqid r, sseqid r))"
    using assms by (simp add: mirrored_def)
  have dec: "(case D (sseqid r, qseqid r) of None \<Rightarrow> True | Some prev \<Rightarrow> bitscore r > bitscore prev)
           = (case D' (qseqid r, sseqid r) of None \<Rightarrow> True | Some prev \<Rightarrow> bitscore r > bitscore prev)"
    using eq by (cases "D (sseqid r, qseqid r)"; cases "D' (qseqid r, sseqid r)") auto
  show ?thesis
    unfolding to_dir_step_def Let_def
    using assms dec by (auto simp: mirrored_def)
qed

lemma mirrored_fold:
  "mirrored D D' \<Longrightarrow>
   mirrored (fold (to_dir_step True emax Lmin) df D) (fold (to_dir_step False emax Lmin) df D')"
  by (induction df arbitrary: D D') (simp_all add: mirrored_step)

lemma to_dir_dict_flip:
  "map_option bitscore (to_dir_dict df True emax Lmin (x, y))
     = map_option bitscore (to_dir_dict df False emax Lmin (y, x))"
proof -
  have "mirrored (Map.empty :: 'a \<times> 'a \<rightharpoonup> 'a hit) Map.empty" by (simp add: mirrored_def)
  from mirrored_fold [OF this, of emax Lmin df] show ?thesis
    by (simp add: to_dir_dict_def mirrored_def)
qed

lemma merge_score_swap:
  assumes "map_option bitscore (a k) = map_option bitscore (b' k')"
    and "map_option bitscore (b k) = map_option bitscore (a' k')"
  shows "map_option score (merge_symmetric a b how k) = map_option score (merge_symmetric a' b' how k')"
  using assms
  by (cases "a k"; cases "b k"; cases "a' k'"; cases "b' k'")
     (auto simp: merge_symmetric_def with_merge_def max.commute min.commute)

text \<open>
  Claim C7. For all hit tables, thresholds and merge modes, merging the tables in the other
  order gives, under the swapped key, a record exactly where the first order gives one, and
  with the same combined score.
\<close>

theorem merge_tables_order:
  "map_option score (merge_tables A B how emax Lmin (x, y))
     = map_option score (merge_tables B A how emax Lmin (y, x))
   \<and> ((x, y) \<in> dom (merge_tables A B how emax Lmin) \<longleftrightarrow> (y, x) \<in> dom (merge_tables B A how emax Lmin))"
proof -
  have s: "map_option score (merge_tables A B how emax Lmin (x, y))
     = map_option score (merge_tables B A how emax Lmin (y, x))"
    unfolding merge_tables_def
    by (rule merge_score_swap) (simp_all add: to_dir_dict_flip)
  then have "merge_tables A B how emax Lmin (x, y) = None \<longleftrightarrow> merge_tables B A how emax Lmin (y, x) = None"
    by (metis option.map_disc_iff)
  with s show ?thesis by (auto simp: dom_def)
qed

theorem merge_tables_order_witness:
  "map_option score
     (merge_tables
        [\<lparr>qseqid = ''a1'', sseqid = ''b1'', pident = Some 90, hit_length = 100, evalue = 0, bitscore = 200\<rparr>,
         \<lparr>qseqid = ''a1'', sseqid = ''b2'', pident = Some 50, hit_length = 20, evalue = 0, bitscore = 50\<rparr>]
        [\<lparr>qseqid = ''b1'', sseqid = ''a1'', pident = None, hit_length = 100, evalue = 0, bitscore = 100\<rparr>]
        ''avg'' (Some (1 / 1000)) (Some 30) (''a1'', ''b1'')) = Some 150
   \<and> map_option score
     (merge_tables
        [\<lparr>qseqid = ''b1'', sseqid = ''a1'', pident = None, hit_length = 100, evalue = 0, bitscore = 100\<rparr>]
        [\<lparr>qseqid = ''a1'', sseqid = ''b1'', pident = Some 90, hit_length = 100, evalue = 0, bitscore = 200\<rparr>,
         \<lparr>qseqid = ''a1'', sseqid = ''b2'', pident = Some 50, hit_length = 20, evalue = 0, bitscore = 50\<rparr>]
        ''avg'' (Some (1 / 1000)) (Some 30) (''b1'', ''a1'')) = Some 150"
proof -
  let ?A = "[\<lparr>qseqid = ''a1'', sseqid = ''b1'', pident = Some 90, hit_length = 100, evalue = 0, bitscore = 200\<rparr>,
         \<lparr>qseqid = ''a1'', sseqid = ''b2'', pident = Some 50, hit_length = 20, evalue = 0, bitscore = 50\<rparr>] :: string hit list"
  let ?B = "[\<lparr>qseqid = ''b1'', sseqid = ''a1'', pident = None, hit_length = 100, evalue = 0, bitscore = 100\<rparr>] :: string hit list"
  have one: "map_option score (merge_tables ?A ?B ''avg'' (Some (1 / 1000)) (Some 30) (''a1'', ''b1'')) = Some 150"
    by (simp add: merge_tables_def merge_symmetric_def to_dir_dict_def to_dir_step_def
          with_merge_def avg_two_def Let_def)
  from merge_tables_order [of ?A ?B "''avg''" "Some (1 / 1000)" "Some 30" "''a1''" "''b1''"] one
  show ?thesis by simp
qed

section \<open>Properties of the assignment\<close>

lemma index_of_nth: "a \<in> set xs \<Longrightarrow> index_of xs a < length xs \<and> xs ! index_of xs a = a"
  by (induction xs) auto

lemma cost_step_cell:
  "\<exists>sm1 cell1 mx1. cost_step qs ts ((A, B), rec) (sm0, cell0, mx0) = (sm1, cell1, mx1)
      \<and> (cell1 = cell0 \<or> cell1 = cell0((index_of qs A, index_of ts B) \<mapsto> rec))"
  by (simp add: cost_step_def Let_def)

lemma fold_cost_step_cells:
  assumes "\<forall>i j rec. cell0 (i, j) = Some rec \<longrightarrow>
             (\<exists>A B. ((A, B), rec) \<in> S \<and> i = index_of qs A \<and> j = index_of ts B)"
    and "set xs \<subseteq> S"
    and "fold (cost_step qs ts) xs (sm0, cell0, mx0) = (sm, cell, mx)"
  shows "\<forall>i j rec. cell (i, j) = Some rec \<longrightarrow>
             (\<exists>A B. ((A, B), rec) \<in> S \<and> i = index_of qs A \<and> j = index_of ts B)"
  using assms
proof (induction xs arbitrary: sm0 cell0 mx0)
  case Nil
  then show ?case by simp
next
  case (Cons x xs)
  obtain A B rec where x: "x = ((A, B), rec)" by (cases x) auto
  from cost_step_cell [of qs ts A B rec sm0 cell0 mx0]
  obtain sm1 cell1 mx1 where
    st: "cost_step qs ts ((A, B), rec) (sm0, cell0, mx0) = (sm1, cell1, mx1)"
    and c1: "cell1 = cell0 \<or> cell1 = cell0((index_of qs A, index_of ts B) \<mapsto> rec)"
    by blast
  have inS: "((A, B), rec) \<in> S" using Cons.prems(2) x by simp
  have inv1: "\<forall>i j r. cell1 (i, j) = Some r \<longrightarrow>
             (\<exists>A B. ((A, B), r) \<in> S \<and> i = index_of qs A \<and> j = index_of ts B)"
  proof (intro allI impI)
    fix i j r assume h: "cell1 (i, j) = Some r"
    show "\<exists>A B. ((A, B), r) \<in> S \<and> i = index_of qs A \<and> j = index_of ts B"
    proof (cases "cell1 = cell0")
      case True
      with h Cons.prems(1) show ?thesis by simp
    next
      case False
      with c1 have u: "cell1 = cell0((index_of qs A, index_of ts B) \<mapsto> rec)" by simp
      show ?thesis
      proof (cases "(i, j) = (index_of qs A, index_of ts B)")
        case True
        with h u have "r = rec" by simp
        with True inS show ?thesis by blast
      next
        case False
        with h u have "cell0 (i, j) = Some r" by (auto split: if_splits)
        with Cons.prems(1) show ?thesis by simp
      qed
    qed
  qed
  have "fold (cost_step qs ts) xs (sm1, cell1, mx1) = (sm, cell, mx)"
    using Cons.prems(3) by (simp add: x st)
  from Cons.IH [OF inv1 _ this] Cons.prems(2) show ?case by simp
qed

lemma cell_of_backed:
  assumes "cell_of merged (i, j) = Some rec"
  shows "\<exists>A B. ((A, B), rec) \<in> set merged \<and> i = index_of (queries_of merged) A
             \<and> j = index_of (targets_of merged) B"
proof -
  define qs where "qs = sort (remdups (map (\<lambda>(k, rec). fst k) merged))"
  define ts where "ts = sort (remdups (map (\<lambda>(k, rec). snd k) merged))"
  obtain sm cell mx where f: "fold (cost_step qs ts) merged
       (replicate (length qs) (replicate (length ts) 0), Map.empty, 0) = (sm, cell, mx)"
    by (metis prod_cases3)
  have q: "queries_of merged = qs" and t: "targets_of merged = ts" and c: "cell_of merged = cell"
    using f by (simp_all add: queries_of_def targets_of_def cell_of_def build_cost_matrix_def
                  Let_def qs_def ts_def)
  from fold_cost_step_cells [OF _ subset_refl f] assms show ?thesis
    by (simp add: q t c)
qed

lemma queries_of_set: "((A, B), rec) \<in> set merged \<Longrightarrow> A \<in> set (queries_of merged)"
  by (force simp: queries_of_def build_cost_matrix_def Let_def split: prod.splits)

lemma targets_of_set: "((A, B), rec) \<in> set merged \<Longrightarrow> B \<in> set (targets_of merged)"
  by (force simp: targets_of_def build_cost_matrix_def Let_def split: prod.splits)

lemma cell_of_record:
  assumes "cell_of merged (i, j) = Some rec"
  shows "((queries_of merged ! i, targets_of merged ! j), rec) \<in> set merged"
proof -
  from cell_of_backed [OF assms] obtain A B where
    ab: "((A, B), rec) \<in> set merged" "i = index_of (queries_of merged) A"
        "j = index_of (targets_of merged) B"
    by blast
  have "queries_of merged ! i = A" "targets_of merged ! j = B"
    using ab index_of_nth queries_of_set targets_of_set by metis+
  with ab(1) show ?thesis by simp
qed


lemma map_filter_mem:
  "y \<in> set (List.map_filter g xs) \<Longrightarrow> \<exists>x\<in>set xs. g x = Some y"
  by (auto simp: List.map_filter_def)

lemma distinct_map_filter:
  assumes "distinct (map f xs)" and "\<And>x y. g x = Some y \<Longrightarrow> p y = f x"
  shows "distinct (map p (List.map_filter g xs))"
  using assms(1)
proof (induction xs)
  case Nil
  then show ?case by (simp add: List.map_filter_simps)
next
  case (Cons x xs)
  then have IH: "distinct (map p (List.map_filter g xs))" and nx: "f x \<notin> f ` set xs"
    by auto
  show ?case
  proof (cases "g x")
    case None
    with IH show ?thesis by (simp add: List.map_filter_simps)
  next
    case (Some y)
    have "p y \<notin> p ` set (List.map_filter g xs)"
    proof
      assume "p y \<in> p ` set (List.map_filter g xs)"
      then obtain z where z: "z \<in> set (List.map_filter g xs)" "p y = p z" by auto
      from map_filter_mem [OF z(1)] obtain x' where x': "x' \<in> set xs" "g x' = Some z" by blast
      from assms(2) [OF x'(2)] assms(2) [OF Some] z(2) have "f x = f x'" by simp
      with x'(1) nx show False by blast
    qed
    with IH Some show ?thesis by (simp add: List.map_filter_simps)
  qed
qed

lemma chosen_cells_alt:
  "chosen_cells lsa merged =
     (case solve_hungarian lsa (cost_of merged) True of (r, c, transposed) \<Rightarrow>
        List.map_filter
          (\<lambda>(i, j). let (ii, jj) = (if transposed then (j, i) else (i, j))
                    in if ii < length (queries_of merged) \<and> jj < length (targets_of merged)
                       then (case cell_of merged (ii, jj) of None \<Rightarrow> None
                             | Some rec \<Rightarrow> Some ((ii, jj), rec))
                       else None)
          (zip r c))"
proof -
  obtain qs ts sm cost cell mx where b: "build_cost_matrix merged = (qs, ts, sm, cost, cell, mx)"
    by (metis prod_cases3)
  have e: "queries_of merged = qs" "targets_of merged = ts" "cost_of merged = cost"
      "cell_of merged = cell"
    by (simp_all add: queries_of_def targets_of_def cost_of_def cell_of_def b)
  show ?thesis
    unfolding e chosen_cells_def b by (simp add: Let_def)
qed

lemma solve_hungarian_cases:
  "solve_hungarian lsa cost True =
     (if length cost > (if cost \<noteq> [] then length (cost ! 0) else 0)
      then (snd (lsa (lsa_input cost)), fst (lsa (lsa_input cost)), True)
      else (fst (lsa (lsa_input cost)), snd (lsa (lsa_input cost)), False))"
  by (simp add: solve_hungarian_def lsa_input_def Let_def split: prod.splits)

lemma distinct_fst_zip: "distinct xs \<Longrightarrow> distinct (map fst (zip xs ys))"
  by (simp add: map_fst_zip_take)

lemma distinct_snd_zip: "distinct ys \<Longrightarrow> distinct (map snd (zip xs ys))"
  by (simp add: map_snd_zip_take)

text \<open>
  Claim C4. Whenever the solver returns row indices that are pairwise different and column
  indices that are pairwise different, no two chosen pairs share a query index, no two
  share a target index, and every chosen pair is in range and carries a record that the
  merged input holds under the key of that query and that target; a pair the solver forced
  onto a cell without a record is not chosen.
\<close>

theorem chosen_cells_matching:
  assumes "distinct (fst (lsa (lsa_input (cost_of merged))))"
    and "distinct (snd (lsa (lsa_input (cost_of merged))))"
  shows "distinct (map (\<lambda>(p, rec). fst p) (chosen_cells lsa merged))
       \<and> distinct (map (\<lambda>(p, rec). snd p) (chosen_cells lsa merged))
       \<and> (\<forall>((ii, jj), rec) \<in> set (chosen_cells lsa merged).
             ii < length (queries_of merged) \<and> jj < length (targets_of merged)
             \<and> ((queries_of merged ! ii, targets_of merged ! jj), rec) \<in> set merged)"
proof -
  obtain r c transposed where sh: "solve_hungarian lsa (cost_of merged) True = (r, c, transposed)"
    by (metis prod_cases3)
  have rc: "distinct r" "distinct c"
    using sh assms by (auto simp: solve_hungarian_cases split: if_splits)
  define g where "g = (\<lambda>(i, j). let (ii, jj) = (if transposed then (j, i) else (i, j))
                    in if ii < length (queries_of merged) \<and> jj < length (targets_of merged)
                       then (case cell_of merged (ii, jj) of None \<Rightarrow> None
                             | Some rec \<Rightarrow> Some ((ii, jj), rec))
                       else None)"
  have cc: "chosen_cells lsa merged = List.map_filter g (zip r c)"
    by (simp add: chosen_cells_alt sh g_def)
  have gs: "ii < length (queries_of merged) \<and> jj < length (targets_of merged)
            \<and> cell_of merged (ii, jj) = Some rec
            \<and> (ii, jj) = (if transposed then (snd x, fst x) else x)"
    if "g x = Some ((ii, jj), rec)" for x ii jj rec
    using that by (cases x) (auto simp: g_def Let_def split: if_splits option.splits)
  have d1: "distinct (map (\<lambda>(p, rec). fst p) (List.map_filter g (zip r c)))"
  proof (rule distinct_map_filter [where f = "if transposed then snd else fst"])
    show "distinct (map (if transposed then snd else fst) (zip r c))"
      using rc by (simp add: distinct_fst_zip distinct_snd_zip)
    fix x y assume "g x = Some y"
    with gs [of x "fst (fst y)" "snd (fst y)" "snd y"]
    show "(case y of (p, rec) \<Rightarrow> fst p) = (if transposed then snd else fst) x"
      by (cases y) (auto split: if_splits)
  qed
  have d2: "distinct (map (\<lambda>(p, rec). snd p) (List.map_filter g (zip r c)))"
  proof (rule distinct_map_filter [where f = "if transposed then fst else snd"])
    show "distinct (map (if transposed then fst else snd) (zip r c))"
      using rc by (simp add: distinct_fst_zip distinct_snd_zip)
    fix x y assume "g x = Some y"
    with gs [of x "fst (fst y)" "snd (fst y)" "snd y"]
    show "(case y of (p, rec) \<Rightarrow> snd p) = (if transposed then fst else snd) x"
      by (cases y) (auto split: if_splits)
  qed
  have d3: "\<forall>((ii, jj), rec) \<in> set (List.map_filter g (zip r c)).
             ii < length (queries_of merged) \<and> jj < length (targets_of merged)
             \<and> ((queries_of merged ! ii, targets_of merged ! jj), rec) \<in> set merged"
  proof (clarify)
    fix ii jj rec assume "((ii, jj), rec) \<in> set (List.map_filter g (zip r c))"
    from map_filter_mem [OF this] obtain x where "g x = Some ((ii, jj), rec)" by blast
    from gs [OF this] have b: "ii < length (queries_of merged)" "jj < length (targets_of merged)"
      and c: "cell_of merged (ii, jj) = Some rec"
      by blast+
    from b cell_of_record [OF c]
    show "ii < length (queries_of merged) \<and> jj < length (targets_of merged)
             \<and> ((queries_of merged ! ii, targets_of merged ! jj), rec) \<in> set merged"
      by blast
  qed
  from d1 d2 d3 show ?thesis unfolding cc by blast
qed
theorem chosen_cells_matching_witness:
  "distinct (fst (lsa_reference (lsa_input (cost_of
       [example_rec ''q0'' ''t0'' 90, example_rec ''q1'' ''t1'' 70, example_rec ''q1'' ''t2'' 5]))))
   \<and> distinct (snd (lsa_reference (lsa_input (cost_of
       [example_rec ''q0'' ''t0'' 90, example_rec ''q1'' ''t1'' 70, example_rec ''q1'' ''t2'' 5]))))
   \<and> map fst (chosen_cells lsa_reference
       [example_rec ''q0'' ''t0'' 90, example_rec ''q1'' ''t1'' 70, example_rec ''q1'' ''t2'' 5])
     = [(0, 0), (1, 1)]
   \<and> distinct (map (\<lambda>(p, rec). fst p) (chosen_cells lsa_reference
       [example_rec ''q0'' ''t0'' 90, example_rec ''q1'' ''t1'' 70, example_rec ''q1'' ''t2'' 5]))
   \<and> distinct (map (\<lambda>(p, rec). snd p) (chosen_cells lsa_reference
       [example_rec ''q0'' ''t0'' 90, example_rec ''q1'' ''t1'' 70, example_rec ''q1'' ''t2'' 5]))"
proof -
  let ?ex = "[example_rec ''q0'' ''t0'' 90, example_rec ''q1'' ''t1'' 70, example_rec ''q1'' ''t2'' 5]"
  have h1: "distinct (fst (lsa_reference (lsa_input (cost_of ?ex))))"
    by code_simp
  have h2: "distinct (snd (lsa_reference (lsa_input (cost_of ?ex))))"
    by code_simp
  have c: "map fst (chosen_cells lsa_reference ?ex) = [(0, 0), (1, 1)]"
    by code_simp
  from chosen_cells_matching [where lsa = lsa_reference and merged = ?ex, OF h1 h2] h1 h2 c
  show ?thesis
    by blast
qed

text \<open>
  What \<^verbatim>\<open>solve_hungarian\<close> returns is, pair by pair, the solver's selection in the
  orientation of the cost matrix, transposed or not.
\<close>

lemma solve_hungarian_orientation:
  "solve_hungarian lsa cost True = (r, c, transposed) \<Longrightarrow> solver_selected lsa cost = zip r c"
  by (auto simp: solve_hungarian_cases solver_selected_def split: if_splits prod.splits)

text \<open>
  Claim C1. With three queries and two targets the cost matrix is transposed for the
  solver. The only assignment of least cost pairs target \<open>t0\<close> with query \<open>q2\<close> and target
  \<open>t1\<close> with query \<open>q0\<close>, and \<^verbatim>\<open>solve_hungarian\<close> returns these pairs as (query, target)
  indices already. The loop of \<^verbatim>\<open>main\<close> swaps them once more and looks up the cells
  \<open>(0, 2)\<close> and \<open>(1, 0)\<close>: the first is out of range, the second is the record of
  \<open>(q1, t0)\<close>, which the solver did not select. Neither selected pair is reported.
\<close>

theorem transposed_pairs_swapped_twice:
  "queries_of [example_rec ''q0'' ''t1'' 10, example_rec ''q1'' ''t0'' 1, example_rec ''q2'' ''t0'' 10]
     = [''q0'', ''q1'', ''q2'']
   \<and> targets_of [example_rec ''q0'' ''t1'' 10, example_rec ''q1'' ''t0'' 1, example_rec ''q2'' ''t0'' 10]
     = [''t0'', ''t1'']
   \<and> cost_of [example_rec ''q0'' ''t1'' 10, example_rec ''q1'' ''t0'' 1, example_rec ''q2'' ''t0'' 10]
     = [[10, 0], [9, 10], [0, 10]]
   \<and> lsa_input [[10, 0], [9, 10], [0, 10]] = [[10, 9, 0], [0, 10, 10]]
   \<and> map (\<lambda>cs. (cs, total_cost [[10, 9, 0], [0, 10, 10]] cs)) (assignments 2 [0..<3])
     = [([0, 1], 20), ([0, 2], 20), ([1, 0], 9), ([1, 2], 19), ([2, 0], 0), ([2, 1], 10)]
   \<and> lsa_reference [[10, 9, 0], [0, 10, 10]] = ([0, 1], [2, 0])
   \<and> solve_hungarian lsa_reference [[10, 0], [9, 10], [0, 10]] True = ([2, 0], [0, 1], True)
   \<and> solver_selected lsa_reference [[10, 0], [9, 10], [0, 10]] = [(2, 0), (0, 1)]
   \<and> map fst (chosen_cells lsa_reference
        [example_rec ''q0'' ''t1'' 10, example_rec ''q1'' ''t0'' 1, example_rec ''q2'' ''t0'' 10])
     = [(1, 0)]
   \<and> map (\<lambda>r. (qseqid r, sseqid r, score r)) (chosen lsa_reference
        [example_rec ''q0'' ''t1'' 10, example_rec ''q1'' ''t0'' 1, example_rec ''q2'' ''t0'' 10])
     = [(''q1'', ''t0'', 1)]"
proof (intro conjI)
  show "queries_of [example_rec ''q0'' ''t1'' 10, example_rec ''q1'' ''t0'' 1, example_rec ''q2'' ''t0'' 10]
     = [''q0'', ''q1'', ''q2'']"
    by code_simp
  show "targets_of [example_rec ''q0'' ''t1'' 10, example_rec ''q1'' ''t0'' 1, example_rec ''q2'' ''t0'' 10]
     = [''t0'', ''t1'']"
    by code_simp
  show "cost_of [example_rec ''q0'' ''t1'' 10, example_rec ''q1'' ''t0'' 1, example_rec ''q2'' ''t0'' 10]
     = [[10, 0], [9, 10], [0, 10]]"
    by code_simp
  show "lsa_input [[10, 0], [9, 10], [0, 10]] = [[10, 9, 0], [0, 10, 10]]"
    by code_simp
  show "map (\<lambda>cs. (cs, total_cost [[10, 9, 0], [0, 10, 10]] cs)) (assignments 2 [0..<3])
     = [([0, 1], 20), ([0, 2], 20), ([1, 0], 9), ([1, 2], 19), ([2, 0], 0), ([2, 1], 10)]"
    by code_simp
  show "lsa_reference [[10, 9, 0], [0, 10, 10]] = ([0, 1], [2, 0])"
    by code_simp
  show "solve_hungarian lsa_reference [[10, 0], [9, 10], [0, 10]] True = ([2, 0], [0, 1], True)"
    by code_simp
  show "solver_selected lsa_reference [[10, 0], [9, 10], [0, 10]] = [(2, 0), (0, 1)]"
    by code_simp
  show "map fst (chosen_cells lsa_reference
        [example_rec ''q0'' ''t1'' 10, example_rec ''q1'' ''t0'' 1, example_rec ''q2'' ''t0'' 10])
     = [(1, 0)]"
    by code_simp
  show "map (\<lambda>r. (qseqid r, sseqid r, score r)) (chosen lsa_reference
        [example_rec ''q0'' ''t1'' 10, example_rec ''q1'' ''t0'' 1, example_rec ''q2'' ''t0'' 10])
     = [(''q1'', ''t0'', 1)]"
    by code_simp
qed

end
